theory Spec2Isabelle
  imports Complex_Main
begin

section \<open>Polynomial regression trees (equadratures/polytree.py)\<close>

text \<open>
  A shallow embedding of the class \<open>PolyTree\<close>. Floating-point numbers are modelled by
  \<^typ>\<open>real\<close>; where the source relies on \<open>inf\<close> or \<open>nan\<close> the model says so with an
  explicit value. The polynomial library (\<open>Parameter\<close>, \<open>Basis\<close>, \<open>Poly\<close>) is not part of
  the file: a fitted polynomial is a value of an arbitrary type \<open>'p\<close>, and the library's
  operations are taken as parameters.
\<close>

subsection \<open>Data model\<close>

type_synonym row = "real list"

text \<open>The exceptions that the modelled code can raise.\<close>

datatype error = TypeError | IndexError | ValueError | KeyError | AssertionError | InvalidCriterion
  | InvalidSearch

text \<open>A float that may be \<open>nan\<close> (only \<open>lower_loss\<close> needs it, see \<open>pruner\<close>).\<close>

datatype fl = NaN | Fin real

text \<open>
  A node is the dictionary built by \<open>_create_node\<close>. The keys \<open>test_loss\<close> and
  \<open>lower_loss\<close> are added by \<open>prune\<close> (\<open>None\<close>: key absent), the key \<open>data\<close> is deleted
  when a node splits (\<open>None\<close>: key absent). \<open>node["children"]\<close> is the pair of fields
  \<open>left\<close> and \<open>right\<close>. The constant key \<open>name\<close> is left out.
\<close>

record 'p node_fields =
  index :: nat
  loss :: real
  poly :: 'p
  data :: "(row list \<times> real list) option"
  n_samples :: nat
  j_feature :: "nat option"
  threshold :: "real option"
  depth :: nat
  flag :: bool
  test_loss :: "real option"
  lower_loss :: "fl option"

datatype 'p node = Node (attrs: "'p node_fields") (left: "'p node option") (right: "'p node option")

text \<open>
  The configuration and derived state of a \<open>PolyTree\<close> object. The options \<open>order\<close>,
  \<open>basis\<close>, \<open>poly_method\<close> and \<open>poly_solver_args\<close> are only handed to the polynomial
  library, and \<open>verbose\<close> only prints; they are left out.
\<close>

datatype criterion = ModelAware | ModelAgnostic | LossGradient | OtherCriterion

datatype search_mode = Exhaustive | Grid | OtherSearch

record 'p polytree =
  splitting_criterion :: criterion
  max_depth :: nat
  min_samples_leaf :: "nat option"
  tree :: "'p node option"
  search :: search_mode
  samples :: nat
  cardinality :: "nat option"
  actual_max_depth :: nat
  all_data :: bool
  k :: real
  split_dims :: "nat list option"

text \<open>
  The polynomial library. \<open>fit_model X y\<close> stands for building the parameters and the
  basis, constructing \<open>Poly\<close> and calling \<open>set_model\<close>; \<open>get_polyfit p x\<close> is the fitted
  value at one row; \<open>get_poly p x\<close> is the row of basis values at one row (a row of the
  matrix \<open>model.get_poly(X).T\<close>); \<open>get_cardinality d\<close> is the cardinality of the basis in
  \<open>d\<close> dimensions.
\<close>

record 'p poly_lib =
  fit_model :: "row list \<Rightarrow> real list \<Rightarrow> 'p"
  get_polyfit :: "'p \<Rightarrow> row \<Rightarrow> real"
  get_poly :: "'p \<Rightarrow> row \<Rightarrow> real list"
  get_cardinality :: "nat \<Rightarrow> nat"

subsection \<open>Splitting a data set\<close>

text \<open>
  \<open>_split_data\<close>: rows with \<open>X[:, j_feature] <= threshold\<close> go left, the others right.
  On a leaf both \<open>j_feature\<close> and \<open>threshold\<close> are \<open>None\<close>, and the comparison of an array
  with \<open>None\<close> raises \<open>TypeError\<close>. A column index beyond a row, and a \<open>y\<close> shorter than
  \<open>X\<close>, raise \<open>IndexError\<close>.
\<close>

definition split_data ::
  "nat option \<Rightarrow> real option \<Rightarrow> row list \<Rightarrow> real list
    \<Rightarrow> error + ((row list \<times> real list) \<times> (row list \<times> real list))" where
  "split_data jf thr X y =
     (case (jf, thr) of
        (Some j, Some t) \<Rightarrow>
          if (\<exists>x \<in> set X. length x \<le> j) \<or> length y < length X then Inl IndexError
          else
            let idx_left = filter (\<lambda>i. X ! i ! j \<le> t) [0..<length X];
                idx_right = filter (\<lambda>i. i \<notin> set idx_left) [0..<length X]
            in Inr ((map (\<lambda>i. X ! i) idx_left, map (\<lambda>i. y ! i) idx_left),
                    (map (\<lambda>i. X ! i) idx_right, map (\<lambda>i. y ! i) idx_right))
      | _ \<Rightarrow> Inl TypeError)"

text \<open>\<open>np.linalg.norm(y - poly.get_polyfit(X)) ** 2 / N\<close>: the mean squared error.\<close>

definition mse :: "'p poly_lib \<Rightarrow> 'p \<Rightarrow> row list \<Rightarrow> real list \<Rightarrow> real" where
  "mse L p X y = (\<Sum>i \<leftarrow> [0..<length X]. (y ! i - get_polyfit L p (X ! i))\<^sup>2) / real (length X)"

subsection \<open>Pruning\<close>

text \<open>
  The inner function \<open>pruner\<close> of \<open>prune\<close>; \<open>tol\<close> is already divided by 100. When both
  children carry \<open>n_samples = 0\<close> the quotient defining \<open>lower_loss\<close> is \<open>0.0 / 0\<close>, which
  numpy evaluates to \<open>nan\<close>, and the comparison with \<open>nan\<close> is false.
\<close>

fun pruner :: "'p poly_lib \<Rightarrow> real \<Rightarrow> 'p node \<Rightarrow> row list \<Rightarrow> real list \<Rightarrow> error + 'p node" where
  "pruner L tol (Node f l r) X_subset y_subset =
     (if length X_subset < 1 then Inr (Node (f\<lparr>test_loss := Some 0, n_samples := 0\<rparr>) l r)
      else
        let f1 = f\<lparr>test_loss := Some (mse L (poly f) X_subset y_subset)\<rparr> in
        case (l, r) of
          (Some nl, Some nr) \<Rightarrow>
            (case split_data (j_feature f1) (threshold f1) X_subset y_subset of
               Inl e \<Rightarrow> Inl e
             | Inr ((X_left, y_left), (X_right, y_right)) \<Rightarrow>
                 (case pruner L tol nl X_left y_left of
                    Inl e \<Rightarrow> Inl e
                  | Inr l' \<Rightarrow>
                      (case pruner L tol nr X_right y_right of
                         Inl e \<Rightarrow> Inl e
                       | Inr r' \<Rightarrow>
                           (case (test_loss (attrs l'), test_loss (attrs r'), test_loss f1) of
                              (Some tloss_left, Some tloss_right, Some tloss) \<Rightarrow>
                                let n_left = n_samples (attrs l'); n_right = n_samples (attrs r')
                                in if n_left + n_right = 0
                                   then Inr (Node (f1\<lparr>lower_loss := Some NaN\<rparr>) (Some l') (Some r'))
                                   else
                                     let lower = (tloss_left * real n_left + tloss_right * real n_right)
                                                   / real (n_left + n_right);
                                         f2 = f1\<lparr>lower_loss := Some (Fin lower)\<rparr>
                                     in if lower + tol * tloss > tloss then Inr (Node f2 None None)
                                        else Inr (Node f2 (Some l') (Some r'))
                            | _ \<Rightarrow> Inl KeyError))))
        | _ \<Rightarrow> Inr (Node f1 l r))"

text \<open>
  The body of \<open>prune\<close> after the assertion that a tree exists: the root's own split is
  applied to the held-out data and \<open>pruner\<close> is called on the two children. A child that
  is \<open>None\<close> makes \<open>pruner\<close> raise \<open>TypeError\<close> at its first subscript.
\<close>

definition prune_tree :: "'p poly_lib \<Rightarrow> 'p node \<Rightarrow> row list \<Rightarrow> real list \<Rightarrow> real \<Rightarrow> error + 'p node" where
  "prune_tree L t X y tol =
     (let tol' = tol / 100 in
      case split_data (j_feature (attrs t)) (threshold (attrs t)) X y of
        Inl e \<Rightarrow> Inl e
      | Inr ((X_left, y_left), (X_right, y_right)) \<Rightarrow>
          (case left t of
             None \<Rightarrow> Inl TypeError
           | Some nl \<Rightarrow>
               (case pruner L tol' nl X_left y_left of
                  Inl e \<Rightarrow> Inl e
                | Inr l' \<Rightarrow>
                    (case right t of
                       None \<Rightarrow> Inl TypeError
                     | Some nr \<Rightarrow>
                         (case pruner L tol' nr X_right y_right of
                            Inl e \<Rightarrow> Inl e
                          | Inr r' \<Rightarrow> Inr (Node (attrs t) (Some l') (Some r')))))))"

text \<open>\<open>prune(self, X, y, tol)\<close>: the tree is pruned in place.\<close>

definition prune :: "'p poly_lib \<Rightarrow> 'p polytree \<Rightarrow> row list \<Rightarrow> real list \<Rightarrow> real \<Rightarrow> error + 'p polytree" where
  "prune L self X y tol =
     (case tree self of
        None \<Rightarrow> Inl AssertionError
      | Some t \<Rightarrow>
          (case prune_tree L t X y tol of
             Inl e \<Rightarrow> Inl e
           | Inr t' \<Rightarrow> Inr (self\<lparr>tree := Some t'\<rparr>)))"

subsection \<open>Prediction\<close>

text \<open>
  \<open>y_pred\<close> is an array of shape \<open>(len(X), actual_max_depth + 2, 2)\<close> filled with \<open>nan\<close>.
  A buffer is one row of it: one slot per depth, holding the pair (prediction,
  n_samples), or \<open>None\<close> while both entries are still \<open>nan\<close>.
\<close>

type_synonym buffer = "(real \<times> nat) option list"

text \<open>
  The inner function \<open>_predict\<close>; \<open>w\<close> is the size of the depth axis of \<open>y_pred\<close>. A depth
  beyond that axis and a column beyond a row raise \<open>IndexError\<close>; a node with one child
  only, or with children and no split, raises \<open>TypeError\<close>.
\<close>

fun predict_rec ::
  "'p poly_lib \<Rightarrow> row list \<Rightarrow> nat \<Rightarrow> 'p node \<Rightarrow> nat list \<Rightarrow> buffer list \<Rightarrow> error + buffer list" where
  "predict_rec L X w (Node f l r) indexes y_pred =
     (if w \<le> depth f then Inl IndexError
      else
        let y_pred1 = fold (\<lambda>i yp. yp[i := (yp ! i)[depth f :=
                          Some (get_polyfit L (poly f) (X ! i), n_samples f)]]) indexes y_pred
        in if l = None \<and> r = None then Inr y_pred1
           else
             (case (j_feature f, threshold f) of
                (Some j, Some t) \<Rightarrow>
                  if \<exists>i \<in> set indexes. length (X ! i) \<le> j then Inl IndexError
                  else
                    let idx_left = filter (\<lambda>i. X ! i ! j \<le> t) indexes;
                        idx_right = filter (\<lambda>i. X ! i ! j > t) indexes
                    in (case l of
                          None \<Rightarrow> Inl TypeError
                        | Some nl \<Rightarrow>
                            (case predict_rec L X w nl idx_left y_pred1 of
                               Inl e \<Rightarrow> Inl e
                             | Inr y_pred2 \<Rightarrow>
                                 (case r of
                                    None \<Rightarrow> Inl TypeError
                                  | Some nr \<Rightarrow> predict_rec L X w nr idx_right y_pred2)))
              | _ \<Rightarrow> Inl TypeError))"

text \<open>
  The first loop of the smoothing: \<open>while np.isnan(y_pred[y][i][0]) and i > 0: i -= 1\<close>.
\<close>

fun skip_nan :: "buffer \<Rightarrow> nat \<Rightarrow> nat" where
  "skip_nan b 0 = 0"
| "skip_nan b (Suc i) = (if b ! Suc i = None then skip_nan b i else Suc i)"

text \<open>
  The second loop: \<open>while i > 0\<close>, with the \<open>break\<close> at \<open>n_i == 0\<close>. The running value
  is \<open>None\<close> when it is \<open>nan\<close>. The divisor \<open>k + n_i\<close> is positive whenever \<open>k \<ge> 0\<close>, which
  the constructor's assertion \<open>k > 0\<close> gives for a non-negative \<open>min_samples_leaf\<close>.
\<close>

fun blend :: "real \<Rightarrow> buffer \<Rightarrow> nat \<Rightarrow> real option \<Rightarrow> real option" where
  "blend kk b 0 smoothed_y = smoothed_y"
| "blend kk b (Suc i) smoothed_y =
     (case b ! Suc i of
        None \<Rightarrow> None
      | Some (p, n_i) \<Rightarrow>
          if n_i = 0 then smoothed_y
          else blend kk b i
                 (map_option (\<lambda>s. (s * real n_i + p * kk) / (kk + real n_i)) smoothed_y))"

definition smooth :: "real \<Rightarrow> nat \<Rightarrow> buffer \<Rightarrow> real option" where
  "smooth kk amd b =
     (let i = skip_nan b (amd + 1);
          smoothed_y = map_option fst (b ! i)
      in blend kk b i smoothed_y)"

text \<open>\<open>predict(self, X)\<close>: one smoothed value per row (\<open>None\<close> for \<open>nan\<close>).\<close>

definition predict :: "'p poly_lib \<Rightarrow> 'p polytree \<Rightarrow> row list \<Rightarrow> error + real option list" where
  "predict L self X =
     (case tree self of
        None \<Rightarrow> Inl AssertionError
      | Some t \<Rightarrow>
          let w = actual_max_depth self + 2;
              y_pred0 = replicate (length X) (replicate w None)
          in (case predict_rec L X w t [0..<length X] y_pred0 of
                Inl e \<Rightarrow> Inl e
              | Inr y_pred \<Rightarrow> Inr (map (smooth (k self) (actual_max_depth self)) y_pred)))"

subsection \<open>Fitting a node\<close>

text \<open>
  The mutable state of one call of \<open>fit\<close>: the counter \<open>container["index_node_global"]\<close>
  and the two attributes of \<open>self\<close> that \<open>_splitter\<close> assigns, \<open>split_dims\<close> and
  \<open>actual_max_depth\<close>. It is passed along explicitly; \<open>fit\<close> reads the attributes from
  \<open>self\<close> at the start and stores them back at the end. The other attributes of \<open>self\<close> are
  only read while the tree is built.
\<close>

record build_state =
  index_node_global :: nat
  cur_split_dims :: "nat list option"
  cur_actual_max_depth :: nat

text \<open>\<open>X.shape[1]\<close> of a non-empty array.\<close>

definition ncols :: "'a list list \<Rightarrow> nat" where
  "ncols X = (case X of [] \<Rightarrow> 0 | x # _ \<Rightarrow> length x)"

definition column :: "row list \<Rightarrow> nat \<Rightarrow> real list" where
  "column X j = map (\<lambda>x. x ! j) X"

text \<open>
  \<open>_fit_poly\<close>: \<open>np.amin\<close> of an empty column raises \<open>ValueError\<close>; otherwise the counter is
  incremented, the polynomial is fitted and its mean squared error is returned with it.
\<close>

definition fit_poly ::
  "'p poly_lib \<Rightarrow> row list \<Rightarrow> real list \<Rightarrow> build_state \<Rightarrow> error + ((real \<times> 'p) \<times> build_state)" where
  "fit_poly L X y st =
     (if X = [] then Inl ValueError
      else
        let st1 = st\<lparr>index_node_global := index_node_global st + 1\<rparr>;
            p = fit_model L X y
        in Inr ((mse L p X y, p), st1))"

text \<open>\<open>_create_node\<close>: fits a polynomial and builds the dictionary of a leaf.\<close>

definition create_node ::
  "'p poly_lib \<Rightarrow> row list \<Rightarrow> real list \<Rightarrow> nat \<Rightarrow> build_state \<Rightarrow> error + ('p node \<times> build_state)" where
  "create_node L X y dep st =
     (case fit_poly L X y st of
        Inl e \<Rightarrow> Inl e
      | Inr ((poly_loss, p), st1) \<Rightarrow>
          Inr (Node \<lparr>index = index_node_global st1, loss = poly_loss, poly = p,
                     data = Some (X, y), n_samples = length X, j_feature = None,
                     threshold = None, depth = dep, flag = False, test_loss = None,
                     lower_loss = None\<rparr> None None,
               st1\<lparr>index_node_global := index_node_global st1 + 1\<rparr>))"

subsection \<open>Split search by thresholds\<close>

text \<open>
  \<open>np.std\<close>: the population standard deviation. Of an empty array it is \<open>nan\<close> (with a
  warning, no exception).
\<close>

definition np_std :: "real list \<Rightarrow> fl" where
  "np_std ys =
     (if ys = [] then NaN
      else
        let m = sum_list ys / real (length ys)
        in Fin (sqrt ((\<Sum>v \<leftarrow> ys. (v - m)\<^sup>2) / real (length ys))))"

text \<open>
  The score of the model-agnostic criterion,
  \<open>np.std(y) - (N_left*np.std(y_left) + N_right*np.std(y_right)) / N\<close>; it is \<open>nan\<close> as
  soon as one of the three deviations is.
\<close>

definition agnostic_loss :: "real list \<Rightarrow> real list \<Rightarrow> real list \<Rightarrow> fl" where
  "agnostic_loss y y_left y_right =
     (case (np_std y, np_std y_left, np_std y_right) of
        (Fin s, Fin s_left, Fin s_right) \<Rightarrow>
          Fin (s - (real (length y_left) * s_left + real (length y_right) * s_right)
                     / real (length y))
      | _ \<Rightarrow> NaN)"

text \<open>
  The running best of \<open>_splitter\<close>, which is also the dictionary it returns (with the key
  \<open>N\<close>). \<open>loss_best = None\<close> stands for \<open>np.inf\<close>.
\<close>

record 'p split_result =
  did_split :: bool
  loss_best :: "real option"
  polys_best :: "('p \<times> 'p) option"
  data_best :: "((row list \<times> real list) \<times> (row list \<times> real list)) option"
  j_feature_best :: "nat option"
  threshold_best :: "real option"
  N_rows :: nat

text \<open>\<open>loss_split < loss_best\<close>: false for \<open>nan\<close>, true for a number against \<open>np.inf\<close>.\<close>

definition below_best :: "fl \<Rightarrow> real option \<Rightarrow> bool" where
  "below_best loss_split best =
     (case loss_split of
        NaN \<Rightarrow> False
      | Fin v \<Rightarrow> (case best of None \<Rightarrow> True | Some b \<Rightarrow> v < b))"

text \<open>
  The body of the loop over thresholds (lines 195 to 223) for one feature and one
  threshold. \<open>min_samples_leaf\<close> is a number once \<open>fit\<close> has run; compared while still
  \<open>None\<close> it raises \<open>TypeError\<close>. The loop is only entered under the two criteria that
  search thresholds.
\<close>

definition try_threshold ::
  "'p poly_lib \<Rightarrow> 'p polytree \<Rightarrow> row list \<Rightarrow> real list \<Rightarrow> nat \<Rightarrow> real
    \<Rightarrow> 'p split_result \<times> build_state \<Rightarrow> error + ('p split_result \<times> build_state)" where
  "try_threshold L self X y j t bs =
     (case bs of (b, st) \<Rightarrow>
      case split_data (Some j) (Some t) X y of
        Inl e \<Rightarrow> Inl e
      | Inr ((X_left, y_left), (X_right, y_right)) \<Rightarrow>
          (case min_samples_leaf self of
             None \<Rightarrow> Inl TypeError
           | Some msl \<Rightarrow>
               let N_left = length X_left; N_right = length X_right in
               if \<not> (N_left \<ge> msl \<and> N_right \<ge> msl) then Inr (b, st)
               else
                 (case splitting_criterion self of
                    ModelAware \<Rightarrow>
                      (case fit_poly L X_left y_left st of
                         Inl e \<Rightarrow> Inl e
                       | Inr ((loss_left, poly_left), st1) \<Rightarrow>
                           (case fit_poly L X_right y_right st1 of
                              Inl e \<Rightarrow> Inl e
                            | Inr ((loss_right, poly_right), st2) \<Rightarrow>
                                let loss_split = (real N_left * loss_left + real N_right * loss_right)
                                                   / real (length X)
                                in if below_best (Fin loss_split) (loss_best b)
                                   then Inr (b\<lparr>did_split := True, loss_best := Some loss_split,
                                               polys_best := Some (poly_left, poly_right),
                                               data_best := Some ((X_left, y_left), (X_right, y_right)),
                                               j_feature_best := Some j,
                                               threshold_best := Some t\<rparr>, st2)
                                   else Inr (b, st2)))
                  | ModelAgnostic \<Rightarrow>
                      (case agnostic_loss y y_left y_right of
                         NaN \<Rightarrow> Inr (b, st)
                       | Fin loss_split \<Rightarrow>
                           if below_best (Fin loss_split) (loss_best b)
                           then Inr (b\<lparr>did_split := True, loss_best := Some loss_split,
                                       data_best := Some ((X_left, y_left), (X_right, y_right)),
                                       j_feature_best := Some j,
                                       threshold_best := Some t\<rparr>, st)
                           else Inr (b, st))
                  | _ \<Rightarrow> Inl InvalidCriterion)))"

text \<open>The loop \<open>for threshold in np.unique(np.sort(threshold_search))\<close>.\<close>

fun search_thresholds ::
  "'p poly_lib \<Rightarrow> 'p polytree \<Rightarrow> row list \<Rightarrow> real list \<Rightarrow> nat \<Rightarrow> real list
    \<Rightarrow> 'p split_result \<times> build_state \<Rightarrow> error + ('p split_result \<times> build_state)" where
  "search_thresholds L self X y j [] bs = Inr bs"
| "search_thresholds L self X y j (t # ts) bs =
     (case try_threshold L self X y j t bs of
        Inl e \<Rightarrow> Inl e
      | Inr bs' \<Rightarrow> search_thresholds L self X y j ts bs')"

text \<open>\<open>np.linspace(start, stop, num)\<close>.\<close>

definition linspace :: "real \<Rightarrow> real \<Rightarrow> nat \<Rightarrow> real list" where
  "linspace start stop num =
     (if num = 1 then [start]
      else map (\<lambda>i. start + real i * ((stop - start) / real (num - 1))) [0..<num])"

text \<open>
  The thresholds searched for feature \<open>j\<close>, sorted and without duplicates: every value of
  the column (\<open>exhaustive\<close>), or \<open>samples\<close> evenly spaced points between its minimum and
  its maximum, at most \<open>N\<close> of them (\<open>grid\<close>).
\<close>

definition threshold_candidates :: "'p polytree \<Rightarrow> row list \<Rightarrow> nat \<Rightarrow> error + real list" where
  "threshold_candidates self X j =
     (case search self of
        Exhaustive \<Rightarrow> Inr (sort (remdups (column X j)))
      | Grid \<Rightarrow>
          let N = length X;
              samples' = (if samples self > N then N else samples self)
          in Inr (sort (remdups (linspace (Min (set (column X j))) (Max (set (column X j))) samples')))
      | OtherSearch \<Rightarrow> Inl InvalidSearch)"

text \<open>The loop \<open>for j_feature in range(d)\<close>.\<close>

fun search_features ::
  "'p poly_lib \<Rightarrow> 'p polytree \<Rightarrow> row list \<Rightarrow> real list \<Rightarrow> nat list
    \<Rightarrow> 'p split_result \<times> build_state \<Rightarrow> error + ('p split_result \<times> build_state)" where
  "search_features L self X y [] bs = Inr bs"
| "search_features L self X y (j # js) bs =
     (case threshold_candidates self X j of
        Inl e \<Rightarrow> Inl e
      | Inr ts \<Rightarrow>
          (case search_thresholds L self X y j ts bs of
             Inl e \<Rightarrow> Inl e
           | Inr bs' \<Rightarrow> search_features L self X y js bs'))"

subsection \<open>Rounding to a double\<close>

text \<open>
  Losses and gains are compared as real numbers, but the split value of the gradient
  selector decides on which side of a split a sample falls, and it is computed from two
  feature values in IEEE 754 double precision. \<open>fl64\<close> rounds a real number to the nearest
  double, ties to the even significand (53 bits; the exponent of the unit in the last
  place is not taken below that of the subnormal numbers). Results beyond the largest
  finite double, which the hardware rounds to \<open>inf\<close>, are not modelled.
\<close>

definition pow2 :: "int \<Rightarrow> real" where
  "pow2 e = (if 0 \<le> e then 2 ^ nat e else 1 / 2 ^ nat (- e))"

definition round_even :: "real \<Rightarrow> int" where
  "round_even r =
     (let f = \<lfloor>r\<rfloor>
      in if r - of_int f < 1 / 2 then f
         else if r - of_int f > 1 / 2 then f + 1
         else if even f then f else f + 1)"

definition fl64 :: "real \<Rightarrow> real" where
  "fl64 x =
     (if x = 0 then 0
      else
        let e = max \<lfloor>log 2 \<bar>x\<bar>\<rfloor> (- 1022);
            ulp = pow2 (e - 52)
        in of_int (round_even (x / ulp)) * ulp)"

text \<open>The sum and the product of two doubles, as the hardware returns them.\<close>

definition fl64_add :: "real \<Rightarrow> real \<Rightarrow> real" where
  "fl64_add a b = fl64 (a + b)"

definition fl64_mul :: "real \<Rightarrow> real \<Rightarrow> real" where
  "fl64_mul a b = fl64 (a * b)"

subsection \<open>Gradient split selector\<close>

text \<open>
  \<open>np.unique(Xd, return_index=True)[1]\<close>: for every distinct value, in ascending order,
  the index of its first occurrence.
\<close>

fun first_index :: "'a list \<Rightarrow> 'a \<Rightarrow> nat" where
  "first_index [] v = 0"
| "first_index (x # xs) v = (if x = v then 0 else Suc (first_index xs v))"

definition unique_index :: "real list \<Rightarrow> nat list" where
  "unique_index Xd = map (first_index Xd) (sort (remdups Xd))"

text \<open>\<open>M.sum(axis=0)\<close> for a matrix with \<open>p\<close> columns, given as the list of its rows.\<close>

definition col_sums :: "nat \<Rightarrow> real list list \<Rightarrow> real list" where
  "col_sums p M = map (\<lambda>j. \<Sum>row \<leftarrow> M. row ! j) [0..<p]"

text \<open>
  One non-intercept component of a renormalised gradient sum, that is
  \<open>_get_mean_and_sigma\<close> followed by \<open>_renormalise\<close> for one side of one split and one
  column: \<open>n\<close> is the number of samples on that side, \<open>xsum\<close> and \<open>x2sum\<close> are the sums of
  the shifted basis values and of their squares on that side, \<open>mu\<close> is the mean of the
  column, \<open>g0\<close> the intercept component and \<open>gj\<close> this component of the gradient sum.
  With \<open>n = 1\<close> the variance divides by \<open>n - 1 = 0\<close>: numpy gives \<open>nan\<close> for \<open>0 / 0\<close> and
  \<open>inf\<close> otherwise, and with \<open>sigma = inf\<close> both factors \<open>1/sigma\<close> and \<open>-mu/sigma\<close> are 0.
\<close>

definition renorm_component :: "nat \<Rightarrow> real \<Rightarrow> real \<Rightarrow> real \<Rightarrow> real \<Rightarrow> real \<Rightarrow> fl" where
  "renorm_component n xsum x2sum mu g0 gj =
     (if n = 1 then (if x2sum = 0 then NaN else Fin 0)
      else
        let epsilon = 0.001;
            mu_side = xsum / real n;
            sigma = sqrt (max (x2sum / real (n - 1) - mu_side\<^sup>2) (epsilon\<^sup>2));
            mu_side' = mu_side + mu
        in Fin (gj * (1 / sigma) + (- mu_side' / sigma) * g0))"

text \<open>
  The renormalised gradient sum of one side: the intercept component is left as it is.
\<close>

definition renormalise :: "nat \<Rightarrow> real list \<Rightarrow> real list \<Rightarrow> real list \<Rightarrow> real list \<Rightarrow> fl list" where
  "renormalise n xsum x2sum mu gs =
     Fin (gs ! 0) #
     map (\<lambda>j. renorm_component n (xsum ! j) (x2sum ! j) (mu ! j) (gs ! 0) (gs ! Suc j))
       [0..<length gs - 1]"

text \<open>\<open>(v**2).sum() / n\<close>, which is \<open>nan\<close> when a component is.\<close>

definition sq_sum_over :: "fl list \<Rightarrow> nat \<Rightarrow> fl" where
  "sq_sum_over v n =
     (if NaN \<in> set v then NaN
      else Fin ((\<Sum>c \<leftarrow> v. (case c of Fin x \<Rightarrow> x\<^sup>2 | NaN \<Rightarrow> 0)) / real n))"

definition fl_add :: "fl \<Rightarrow> fl \<Rightarrow> fl" where
  "fl_add a b = (case (a, b) of (Fin x, Fin y) \<Rightarrow> Fin (x + y) | _ \<Rightarrow> NaN)"

text \<open>
  The gain of the split after the first \<open>s\<close> samples in the order \<open>perm\<close> (the array \<open>sort\<close>) (lines 799 to
  846): \<open>P\<close> are the basis values, \<open>r\<close> the residuals and \<open>g\<close> their products, summed on
  the left of the split and on the right, renormalised, squared and divided by the
  number of samples on each side.
\<close>

definition gain_at :: "'p poly_lib \<Rightarrow> 'p \<Rightarrow> row list \<Rightarrow> real list \<Rightarrow> nat list \<Rightarrow> nat \<Rightarrow> fl" where
  "gain_at L model X y perm s =
     (let N = length X;
          P = map (get_poly L model) X;
          p = ncols P;
          r = map (\<lambda>i. y ! i - get_polyfit L model (X ! i)) [0..<N];
          g = map (\<lambda>i. map (\<lambda>v. r ! i * v) (P ! i)) [0..<N];
          gsum = col_sums p g;
          gsum_left = col_sums p (take s (map (\<lambda>i. g ! i) perm));
          gsum_right = map (\<lambda>j. gsum ! j - gsum_left ! j) [0..<p];
          N_l = s;
          N_r = N - s;
          Xp = map tl P;
          mu = map (\<lambda>v. v / real N) (col_sums (p - 1) Xp);
          Xshift = map (\<lambda>i. map (\<lambda>j. Xp ! i ! j - mu ! j) [0..<p - 1]) perm;
          X2shift = map (map (\<lambda>v. v\<^sup>2)) Xshift;
          Xsum_l = col_sums (p - 1) (take s Xshift);
          Xsum_r = map (\<lambda>j. col_sums (p - 1) Xshift ! j - Xsum_l ! j) [0..<p - 1];
          X2sum_l = col_sums (p - 1) (take s X2shift);
          X2sum_r = map (\<lambda>j. col_sums (p - 1) X2shift ! j - X2sum_l ! j) [0..<p - 1];
          left' = renormalise N_l Xsum_l X2sum_l mu gsum_left;
          right' = renormalise N_r Xsum_r X2sum_r mu gsum_right
      in fl_add (sq_sum_over left' N_l) (sq_sum_over right' N_r))"

text \<open>
  \<open>np.argmax\<close>: the first index of the maximum, a \<open>nan\<close> counting as larger than every
  number.
\<close>

definition beats :: "fl \<Rightarrow> fl \<Rightarrow> bool" where
  "beats a b = (case (a, b) of (NaN, Fin _) \<Rightarrow> True | (Fin x, Fin y) \<Rightarrow> x > y | _ \<Rightarrow> False)"

definition argmax :: "fl list \<Rightarrow> nat" where
  "argmax gs = fold (\<lambda>i best. if beats (gs ! i) (gs ! best) then i else best) [0..<length gs] 0"

text \<open>\<open>gain > gain_max\<close>, where \<open>gain_max = None\<close> stands for \<open>-np.inf\<close>.\<close>

definition above_max :: "fl \<Rightarrow> real option \<Rightarrow> bool" where
  "above_max gain gain_max =
     (case gain of
        NaN \<Rightarrow> False
      | Fin v \<Rightarrow> (case gain_max of None \<Rightarrow> True | Some m \<Rightarrow> v > m))"

text \<open>
  The candidate splits of dimension \<open>d\<close> (lines 813 to 828): the samples are sorted
  along \<open>d\<close> (the sums taken below do not depend on the order among equal values), the
  candidates are the first indices of the distinct values but the first, and those with
  fewer than \<open>min_samples_leaf\<close> samples on a side are dropped.
\<close>

definition sort_along :: "row list \<Rightarrow> nat \<Rightarrow> nat list" where
  "sort_along X d = sort_key (\<lambda>i. X ! i ! d) [0..<length X]"

definition sorted_column :: "row list \<Rightarrow> nat \<Rightarrow> real list" where
  "sorted_column X d = map (\<lambda>i. X ! i ! d) (sort_along X d)"

definition boundaries :: "row list \<Rightarrow> nat \<Rightarrow> nat list" where
  "boundaries X d = tl (unique_index (sorted_column X d))"

definition grad_candidates :: "nat \<Rightarrow> row list \<Rightarrow> nat \<Rightarrow> nat list" where
  "grad_candidates msl X d =
     filter (\<lambda>s. min s (length X - s) \<ge> msl) (boundaries X d)"

text \<open>
  The running best of \<open>_find_split_from_grad\<close>: \<open>gain_max\<close> (\<open>None\<close> for \<open>-np.inf\<close>) and
  the best dimension and value found so far.
\<close>

record grad_best =
  gain_max :: "real option"
  best_split_dim :: "nat option"
  best_split_val :: "real option"

text \<open>
  The body of the loop over \<open>self.split_dims\<close>. A dimension beyond the columns of \<open>X\<close>
  raises \<open>IndexError\<close>, and so does \<open>_renormalise\<close> on a model without any coefficient.
  The split value \<open>0.5*(Xd[s - 1] + Xd[s])\<close> is a sum and a product of doubles.
\<close>

definition grad_dim_step ::
  "'p poly_lib \<Rightarrow> nat \<Rightarrow> 'p \<Rightarrow> row list \<Rightarrow> real list \<Rightarrow> nat \<Rightarrow> grad_best \<Rightarrow> error + grad_best" where
  "grad_dim_step L msl model X y d gb =
     (if ncols X \<le> d then Inl IndexError
      else
        let Xd = sorted_column X d;
            splits = grad_candidates msl X d
        in if length splits \<le> 1 then Inr gb
           else if ncols (map (get_poly L model) X) = 0 then Inl IndexError
           else
             let gain = map (gain_at L model X y (sort_along X d)) splits;
                 best_idx = argmax gain
             in if above_max (gain ! best_idx) (gain_max gb)
                then Inr \<lparr>gain_max = (case gain ! best_idx of Fin v \<Rightarrow> Some v | NaN \<Rightarrow> None),
                          best_split_dim = Some d,
                          best_split_val =
                            Some (fl64_mul 0.5
                                    (fl64_add (Xd ! (splits ! best_idx - 1)) (Xd ! (splits ! best_idx))))\<rparr>
                else Inr gb)"

fun grad_dims ::
  "'p poly_lib \<Rightarrow> nat \<Rightarrow> 'p \<Rightarrow> row list \<Rightarrow> real list \<Rightarrow> nat list \<Rightarrow> grad_best \<Rightarrow> error + grad_best" where
  "grad_dims L msl model X y [] gb = Inr gb"
| "grad_dims L msl model X y (d # ds) gb =
     (case grad_dim_step L msl model X y d gb of
        Inl e \<Rightarrow> Inl e
      | Inr gb' \<Rightarrow> grad_dims L msl model X y ds gb')"

text \<open>
  \<open>_find_split_from_grad\<close>: returns \<open>(did_split, split_dim, split_val)\<close>. It is called
  after \<open>_splitter\<close> has set \<open>split_dims\<close>; iterating over \<open>None\<close> raises \<open>TypeError\<close>.
\<close>

definition find_split_from_grad ::
  "'p poly_lib \<Rightarrow> nat list option \<Rightarrow> nat option \<Rightarrow> 'p \<Rightarrow> row list \<Rightarrow> real list
    \<Rightarrow> error + (bool \<times> nat option \<times> real option)" where
  "find_split_from_grad L dims msl_opt model X y =
     (case (dims, msl_opt) of
        (Some ds, Some msl) \<Rightarrow>
          (case grad_dims L msl model X y ds
                  \<lparr>gain_max = None, best_split_dim = None, best_split_val = None\<rparr> of
             Inl e \<Rightarrow> Inl e
           | Inr gb \<Rightarrow>
               if gain_max gb = None then Inr (False, None, None)
               else Inr (True, best_split_dim gb, best_split_val gb))
      | _ \<Rightarrow> Inl TypeError)"

subsection \<open>The splitter and the tree assembler\<close>

text \<open>
  \<open>_splitter\<close>, in the three stages of its body. First the running best is
  initialised: \<open>loss_best\<close> is the loss of the node under \<open>model_aware\<close> and \<open>np.inf\<close>
  under the other two criteria; an unknown criterion raises.
\<close>

definition initial_best :: "'p polytree \<Rightarrow> 'p node \<Rightarrow> nat \<Rightarrow> error + 'p split_result" where
  "initial_best self node N =
     (case (case splitting_criterion self of
              ModelAware \<Rightarrow> Inr (Some (loss (attrs node)))
            | ModelAgnostic \<Rightarrow> Inr None
            | LossGradient \<Rightarrow> Inr None
            | OtherCriterion \<Rightarrow> Inl InvalidCriterion) of
        Inl e \<Rightarrow> Inl e
      | Inr loss_init \<Rightarrow>
          Inr \<lparr>did_split = False, loss_best = loss_init, polys_best = None, data_best = None,
               j_feature_best = None, threshold_best = None, N_rows = N\<rparr>)"

text \<open>
  Second, the search (lines 174 to 231), only for a node whose depth is below
  \<open>max_depth\<close>: the
  threshold search over all features, or under \<open>loss_gradient\<close> one fit of the node's
  data followed by the gradient split selector.
\<close>

definition run_search ::
  "'p poly_lib \<Rightarrow> 'p polytree \<Rightarrow> row list \<Rightarrow> real list \<Rightarrow> nat
    \<Rightarrow> 'p split_result \<times> build_state \<Rightarrow> error + ('p split_result \<times> build_state)" where
  "run_search L self X y dep bs =
     (case bs of (b0, st0) \<Rightarrow>
      if dep < max_depth self
      then (if splitting_criterion self \<noteq> LossGradient
            then search_features L self X y [0..<ncols X] (b0, st0)
            else
              (case fit_poly L X y st0 of
                 Inl e \<Rightarrow> Inl e
               | Inr ((loss_parent, poly_parent), st1) \<Rightarrow>
                   (case find_split_from_grad L (cur_split_dims st1) (min_samples_leaf self)
                           poly_parent X y of
                      Inl e \<Rightarrow> Inl e
                    | Inr (ds, jb, tb) \<Rightarrow>
                        Inr (b0\<lparr>did_split := ds, j_feature_best := jb, threshold_best := tb\<rparr>,
                             st1))))
      else Inr (b0, st0))"

text \<open>
  Third (lines 233 to 241), under the two criteria other than \<open>model_aware\<close> and if a
  split was found: the data is split again at the best split and the polynomials of the
  two children are fitted.
\<close>

definition fit_children ::
  "'p poly_lib \<Rightarrow> 'p polytree \<Rightarrow> row list \<Rightarrow> real list
    \<Rightarrow> 'p split_result \<times> build_state \<Rightarrow> error + ('p split_result \<times> build_state)" where
  "fit_children L self X y bs =
     (case bs of (b1, st2) \<Rightarrow>
      if splitting_criterion self \<noteq> ModelAware \<and> did_split b1
      then
        (case split_data (j_feature_best b1) (threshold_best b1) X y of
           Inl e \<Rightarrow> Inl e
         | Inr ((X_left, y_left), (X_right, y_right)) \<Rightarrow>
             (case fit_poly L X_left y_left st2 of
                Inl e \<Rightarrow> Inl e
              | Inr ((loss_left, poly_left), st3) \<Rightarrow>
                  (case fit_poly L X_right y_right st3 of
                     Inl e \<Rightarrow> Inl e
                   | Inr ((loss_right, poly_right), st4) \<Rightarrow>
                       let b2 = b1\<lparr>loss_best :=
                                     Some ((real (length X_left) * loss_left
                                            + real (length X_right) * loss_right)
                                           / real (length X)),
                                   polys_best := Some (poly_left, poly_right)\<rparr>
                       in Inr (if splitting_criterion self = LossGradient
                               then b2\<lparr>data_best := Some ((X_left, y_left), (X_right, y_right))\<rparr>
                               else b2, st4))))
      else Inr (b1, st2))"

text \<open>
  The whole of \<open>_splitter\<close>: the data of the node is read (\<open>KeyError\<close> if it was
  deleted), \<open>split_dims\<close> is defaulted to all dimensions, the three stages run, and
  \<open>actual_max_depth\<close> is raised to the depth of a node that splits.
\<close>

definition splitter ::
  "'p poly_lib \<Rightarrow> 'p polytree \<Rightarrow> 'p node \<Rightarrow> build_state \<Rightarrow> error + ('p split_result \<times> build_state)" where
  "splitter L self node st =
     (case data (attrs node) of
        None \<Rightarrow> Inl KeyError
      | Some (X, y) \<Rightarrow>
          let dep = depth (attrs node);
              st0 = (case cur_split_dims st of
                       None \<Rightarrow> st\<lparr>cur_split_dims := Some [0..<ncols X]\<rparr>
                     | Some _ \<Rightarrow> st)
          in
          (case initial_best self node (length X) of
             Inl e \<Rightarrow> Inl e
           | Inr b0 \<Rightarrow>
               (case run_search L self X y dep (b0, st0) of
                  Inl e \<Rightarrow> Inl e
                | Inr bs1 \<Rightarrow>
                    (case fit_children L self X y bs1 of
                       Inl e \<Rightarrow> Inl e
                     | Inr (b3, st5) \<Rightarrow>
                         Inr (b3,
                              if did_split b3 \<and> dep > cur_actual_max_depth st5
                              then st5\<lparr>cur_actual_max_depth := dep\<rparr> else st5)))))"

text \<open>
  \<open>_split_traverse_node\<close>: the node is returned with its subtree grown. Unpacking
  \<open>result["data"]\<close> or \<open>result["polys"]\<close> while \<open>None\<close> raises \<open>TypeError\<close>. The recursion
  is guarded by the depth: \<open>_splitter\<close> searches only below \<open>max_depth\<close>, and the
  children are one level deeper.
\<close>

function split_traverse_node ::
  "'p poly_lib \<Rightarrow> 'p polytree \<Rightarrow> 'p node \<Rightarrow> build_state \<Rightarrow> error + ('p node \<times> build_state)" where
  "split_traverse_node L self node st =
     (case splitter L self node st of
        Inl e \<Rightarrow> Inl e
      | Inr (result, st1) \<Rightarrow>
          if \<not> did_split result then Inr (node, st1)
          else
            let f1 = (attrs node)\<lparr>j_feature := j_feature_best result,
                                    threshold := threshold_best result\<rparr>;
                f2 = (if \<not> all_data self then f1\<lparr>data := None\<rparr> else f1)
            in
            (case (data_best result, polys_best result) of
               (Some ((X_left, y_left), (X_right, y_right)), Some (poly_left, poly_right)) \<Rightarrow>
                 (case create_node L X_left y_left (depth (attrs node) + 1) st1 of
                    Inl e \<Rightarrow> Inl e
                  | Inr (child_left, st2) \<Rightarrow>
                      (case create_node L X_right y_right (depth (attrs node) + 1) st2 of
                         Inl e \<Rightarrow> Inl e
                       | Inr (child_right, st3) \<Rightarrow>
                           let child_left' = Node ((attrs child_left)\<lparr>poly := poly_left\<rparr>)
                                               (left child_left) (right child_left);
                               child_right' = Node ((attrs child_right)\<lparr>poly := poly_right\<rparr>)
                                                (left child_right) (right child_right)
                           in
                           (case split_traverse_node L self child_left' st3 of
                              Inl e \<Rightarrow> Inl e
                            | Inr (tree_left, st4) \<Rightarrow>
                                (case split_traverse_node L self child_right' st4 of
                                   Inl e \<Rightarrow> Inl e
                                 | Inr (tree_right, st5) \<Rightarrow>
                                     Inr (Node f2 (Some tree_left) (Some tree_right), st5)))))
             | _ \<Rightarrow> Inl TypeError))"
  by pat_completeness auto

lemma splitter_did_split_depth:
  assumes "splitter L self node st = Inr (result, st1)" and "did_split result"
  shows "depth (attrs node) < max_depth self"
proof (rule ccontr)
  assume "\<not> depth (attrs node) < max_depth self"
  with assms(1) have "\<not> did_split result"
    by (auto simp: splitter_def initial_best_def run_search_def fit_children_def Let_def
             split: option.splits sum.splits prod.splits criterion.splits)
  with assms(2) show False by simp
qed

lemma create_node_depth:
  "create_node L X y dep st = Inr (n, st') \<Longrightarrow> depth (attrs n) = dep"
  by (auto simp: create_node_def split: sum.splits prod.splits)

termination split_traverse_node
  by (relation "measure (\<lambda>(L, self, node, st). max_depth self - depth (attrs node))")
     (auto dest!: splitter_did_split_depth create_node_depth)

text \<open>\<open>_build_tree\<close>: the counter starts at 0.\<close>

definition build_tree ::
  "'p poly_lib \<Rightarrow> 'p polytree \<Rightarrow> row list \<Rightarrow> real list \<Rightarrow> error + ('p node \<times> build_state)" where
  "build_tree L self X y =
     (case create_node L X y 0
             \<lparr>index_node_global = 0, cur_split_dims = split_dims self,
              cur_actual_max_depth = actual_max_depth self\<rparr> of
        Inl e \<Rightarrow> Inl e
      | Inr (root_node, st) \<Rightarrow> split_traverse_node L self root_node st)"

text \<open>
  \<open>fit(self, X, y)\<close>: the cardinality of the basis is stored, \<open>min_samples_leaf\<close> is
  derived from it when it is unset or equal to it, \<open>k\<close> is multiplied by
  \<open>min_samples_leaf\<close>, and the tree is built and stored.
\<close>

definition fit :: "'p poly_lib \<Rightarrow> 'p polytree \<Rightarrow> row list \<Rightarrow> real list \<Rightarrow> error + 'p polytree" where
  "fit L self X y =
     (let d = ncols X;
          card = get_cardinality L d;
          msl = (case min_samples_leaf self of
                   None \<Rightarrow> nat \<lceil>real card * 1.25\<rceil>
                 | Some m \<Rightarrow> if m = card then nat \<lceil>real card * 1.25\<rceil> else m);
          self1 = self\<lparr>cardinality := Some card, min_samples_leaf := Some msl,
                       k := k self * real msl\<rparr>
      in case build_tree L self1 X y of
           Inl e \<Rightarrow> Inl e
         | Inr (root_node, st) \<Rightarrow>
             Inr (self1\<lparr>tree := Some root_node, split_dims := cur_split_dims st,
                        actual_max_depth := cur_actual_max_depth st\<rparr>))"

declare split_traverse_node.simps [simp del]

subsection \<open>Invariants of the two searches\<close>

text \<open>
  What the running best of the threshold search satisfies once it holds a split: the
  recorded partition is the one that \<open>_split_data\<close> gives at the recorded feature and
  threshold, and both parts have at least \<open>min_samples_leaf\<close> rows.
\<close>

definition best_ok :: "'p polytree \<Rightarrow> row list \<Rightarrow> real list \<Rightarrow> 'p split_result \<Rightarrow> bool" where
  "best_ok self X y b =
     (did_split b \<longrightarrow>
       (\<exists>msl j t Xl yl Xr yr.
          min_samples_leaf self = Some msl \<and> j_feature_best b = Some j \<and>
          threshold_best b = Some t \<and>
          split_data (Some j) (Some t) X y = Inr ((Xl, yl), (Xr, yr)) \<and>
          data_best b = Some ((Xl, yl), (Xr, yr)) \<and> msl \<le> length Xl \<and> msl \<le> length Xr))"

text \<open>
  Every child in the tree holds at least \<open>m\<close> training samples (the root, which is
  nobody's child, is not constrained).
\<close>

fun children_ok :: "nat \<Rightarrow> 'p node \<Rightarrow> bool" where
  "children_ok m (Node f l r) =
     ((case l of None \<Rightarrow> True | Some nl \<Rightarrow> m \<le> n_samples (attrs nl) \<and> children_ok m nl) \<and>
      (case r of None \<Rightarrow> True | Some nr \<Rightarrow> m \<le> n_samples (attrs nr) \<and> children_ok m nr))"

text \<open>
  The score that the threshold search computes for a candidate \<open>(j, t)\<close>, as a
  function of the data alone: \<open>None\<close> when the candidate is skipped (a part smaller than
  \<open>min_samples_leaf\<close>) or its score is \<open>nan\<close>, otherwise the weighted loss of the two fitted
  children (\<open>model_aware\<close>) or the deviation score (\<open>model_agnostic\<close>).
\<close>

definition candidate_score ::
  "'p poly_lib \<Rightarrow> 'p polytree \<Rightarrow> row list \<Rightarrow> real list \<Rightarrow> nat \<times> real \<Rightarrow> real option" where
  "candidate_score L self X y c =
     (case split_data (Some (fst c)) (Some (snd c)) X y of
        Inl e \<Rightarrow> None
      | Inr ((X_left, y_left), (X_right, y_right)) \<Rightarrow>
          (case min_samples_leaf self of
             None \<Rightarrow> None
           | Some msl \<Rightarrow>
               if \<not> (length X_left \<ge> msl \<and> length X_right \<ge> msl) then None
               else
                 (case splitting_criterion self of
                    ModelAware \<Rightarrow>
                      Some ((real (length X_left)
                               * mse L (fit_model L X_left y_left) X_left y_left
                             + real (length X_right)
                               * mse L (fit_model L X_right y_right) X_right y_right)
                            / real (length X))
                  | ModelAgnostic \<Rightarrow>
                      (case agnostic_loss y y_left y_right of
                         NaN \<Rightarrow> None
                       | Fin v \<Rightarrow> Some v)
                  | _ \<Rightarrow> None)))"

text \<open>
  The candidates in the order in which the two nested loops visit them: feature by
  feature, and for each feature its thresholds in ascending order.
\<close>

definition feature_candidates :: "'p polytree \<Rightarrow> row list \<Rightarrow> nat \<Rightarrow> (nat \<times> real) list" where
  "feature_candidates self X j =
     (case threshold_candidates self X j of Inl e \<Rightarrow> [] | Inr ts \<Rightarrow> map (Pair j) ts)"

definition search_candidates :: "'p polytree \<Rightarrow> row list \<Rightarrow> nat list \<Rightarrow> (nat \<times> real) list" where
  "search_candidates self X js = concat (map (feature_candidates self X) js)"

text \<open>
  The state of a search by first strict improvement after the candidates \<open>cs\<close>, for a
  score \<open>sc\<close> and an initial bound \<open>init\<close> (\<open>None\<close> for \<open>np.inf\<close>): without a split the
  bound is still the initial one and no scored candidate was below it; with a split,
  the best is the first of the scored candidates with the least score, and that score
  is below the initial bound.
\<close>

definition search_inv ::
  "(nat \<times> real \<Rightarrow> real option) \<Rightarrow> real option \<Rightarrow> (nat \<times> real) list \<Rightarrow> 'p split_result \<Rightarrow> bool" where
  "search_inv sc init cs b =
     (if did_split b
      then (\<exists>i < length cs. \<exists>v.
              sc (cs ! i) = Some v \<and> j_feature_best b = Some (fst (cs ! i)) \<and>
              threshold_best b = Some (snd (cs ! i)) \<and> loss_best b = Some v \<and>
              below_best (Fin v) init \<and>
              (\<forall>k < i. \<forall>w. sc (cs ! k) = Some w \<longrightarrow> v < w) \<and>
              (\<forall>k < length cs. \<forall>w. sc (cs ! k) = Some w \<longrightarrow> v \<le> w))
      else loss_best b = init \<and>
           (\<forall>k < length cs. \<forall>w. sc (cs ! k) = Some w \<longrightarrow> \<not> below_best (Fin w) init))"

text \<open>
  The gains that the gradient selector computes in dimension \<open>d\<close>, one for each remaining
  candidate, and the split value \<open>0.5*(Xd[s - 1] + Xd[s])\<close> at boundary \<open>s\<close>, as computed
  in double precision.
\<close>

definition dim_gains :: "'p poly_lib \<Rightarrow> 'p \<Rightarrow> row list \<Rightarrow> real list \<Rightarrow> nat \<Rightarrow> nat \<Rightarrow> fl list" where
  "dim_gains L model X y msl d =
     map (gain_at L model X y (sort_along X d)) (grad_candidates msl X d)"

definition split_value :: "row list \<Rightarrow> nat \<Rightarrow> nat \<Rightarrow> real" where
  "split_value X d s =
     fl64_mul 0.5 (fl64_add (sorted_column X d ! (s - 1)) (sorted_column X d ! s))"

text \<open>
  The state of the gradient selector after the dimensions \<open>ds\<close>, when no gain is \<open>nan\<close>:
  without a best gain every dimension so far was skipped; with a best gain \<open>g\<close>, it is the
  gain of a candidate of a dimension that was not skipped, the first of the largest
  gains of this dimension, larger than every gain of the earlier dimensions that were
  not skipped and at least as large as every gain of the later ones.
\<close>

definition grad_inv ::
  "'p poly_lib \<Rightarrow> 'p \<Rightarrow> row list \<Rightarrow> real list \<Rightarrow> nat \<Rightarrow> nat list \<Rightarrow> grad_best \<Rightarrow> bool" where
  "grad_inv L model X y msl ds gb =
     (case gain_max gb of
        None \<Rightarrow>
          best_split_dim gb = None \<and> best_split_val gb = None \<and>
          (\<forall>k < length ds. length (grad_candidates msl X (ds ! k)) \<le> 1)
      | Some g \<Rightarrow>
          (\<exists>k < length ds. \<exists>i < length (grad_candidates msl X (ds ! k)).
             1 < length (grad_candidates msl X (ds ! k)) \<and>
             dim_gains L model X y msl (ds ! k) ! i = Fin g \<and>
             best_split_dim gb = Some (ds ! k) \<and>
             best_split_val gb = Some (split_value X (ds ! k) (grad_candidates msl X (ds ! k) ! i)) \<and>
             (\<forall>j < i. \<forall>w. dim_gains L model X y msl (ds ! k) ! j = Fin w \<longrightarrow> w < g) \<and>
             (\<forall>k' < k. 1 < length (grad_candidates msl X (ds ! k')) \<longrightarrow>
                (\<forall>w. Fin w \<in> set (dim_gains L model X y msl (ds ! k')) \<longrightarrow> w < g)) \<and>
             (\<forall>k' < length ds. 1 < length (grad_candidates msl X (ds ! k')) \<longrightarrow>
                (\<forall>w. Fin w \<in> set (dim_gains L model X y msl (ds ! k')) \<longrightarrow> w \<le> g))))"

subsection \<open>Example data\<close>

text \<open>
  A polynomial library whose polynomials are constants: a polynomial is the real number
  it predicts everywhere, and fitting returns the first response (0 on no data). Its
  cardinality is the one of a total-order basis of order 1, the default of \<open>PolyTree\<close>.
\<close>

definition ex_lib :: "real poly_lib" where
  "ex_lib = \<lparr>fit_model = (\<lambda>X y. case y of [] \<Rightarrow> 0 | v # _ \<Rightarrow> v), get_polyfit = (\<lambda>p x. p),
              get_poly = (\<lambda>p x. [1]), get_cardinality = (\<lambda>d. d + 1)\<rparr>"

definition ex_attrs :: "nat \<Rightarrow> real \<Rightarrow> nat \<Rightarrow> nat \<Rightarrow> real node_fields" where
  "ex_attrs i p n d =
     \<lparr>index = i, loss = 0, poly = p, data = None, n_samples = n, j_feature = None,
      threshold = None, depth = d, flag = False, test_loss = None, lower_loss = None\<rparr>"

text \<open>
  A tree with one split at \<open>x0 <= 0\<close>: the root predicts \<open>p\<close>, both leaves predict 2, and
  each leaf holds two training samples.
\<close>

definition ex_stump :: "real \<Rightarrow> real node" where
  "ex_stump p =
     Node ((ex_attrs 1 p 4 0)\<lparr>j_feature := Some 0, threshold := Some 0\<rparr>)
       (Some (Node (ex_attrs 5 2 2 1) None None)) (Some (Node (ex_attrs 7 2 2 1) None None))"

definition ex_self :: "real node option \<Rightarrow> real polytree" where
  "ex_self t =
     \<lparr>splitting_criterion = ModelAware, max_depth = 5, min_samples_leaf = Some 2, tree = t,
      search = Exhaustive, samples = 50, cardinality = Some 1, actual_max_depth = 0,
      all_data = False, k = 1, split_dims = None\<rparr>"

text \<open>
  A tree of depth 2: the root (8 samples) predicts \<open>p\<close> and splits at \<open>x0 <= 0\<close>; its left
  child (4 samples) predicts 6 and splits at \<open>x0 <= -2\<close> into leaves predicting 0 and 3;
  its right child is a leaf predicting 2.
\<close>

definition ex_deep :: "real \<Rightarrow> real node" where
  "ex_deep p =
     Node ((ex_attrs 1 p 8 0)\<lparr>j_feature := Some 0, threshold := Some 0\<rparr>)
       (Some (Node ((ex_attrs 5 6 4 1)\<lparr>j_feature := Some 0, threshold := Some (-2)\<rparr>)
          (Some (Node (ex_attrs 9 0 2 2) None None)) (Some (Node (ex_attrs 11 3 2 2) None None))))
       (Some (Node (ex_attrs 7 2 4 1) None None))"

text \<open>
  A configuration with the default search mode and \<open>k = 0.05\<close>, and four samples on a
  line whose response jumps from 0 to 1 between \<open>x0 = 1\<close> and \<open>x0 = 2\<close>.
\<close>

definition ex_config :: "criterion \<Rightarrow> nat \<Rightarrow> nat option \<Rightarrow> real polytree" where
  "ex_config crit md msl =
     \<lparr>splitting_criterion = crit, max_depth = md, min_samples_leaf = msl, tree = None,
      search = Exhaustive, samples = 50, cardinality = None, actual_max_depth = 0,
      all_data = False, k = 1 / 20, split_dims = None\<rparr>"

definition ex_X :: "row list" where
  "ex_X = [[0], [1], [2], [3]]"

definition ex_y :: "real list" where
  "ex_y = [0, 0, 1, 1]"

text \<open>
  The leaf that \<open>fit\<close> builds from the four samples when \<open>max_depth = 0\<close>, and the
  object after one and after two calls of \<open>fit\<close> with \<open>min_samples_leaf = 2\<close>, which
  equals the cardinality and is therefore replaced by 3.
\<close>

definition ex_root_leaf :: "real node" where
  "ex_root_leaf =
     Node \<lparr>index = 1, loss = 1 / 2, poly = 0, data = Some (ex_X, ex_y), n_samples = 4,
           j_feature = None, threshold = None, depth = 0, flag = False, test_loss = None,
           lower_loss = None\<rparr> None None"

definition ex_fitted_once :: "real polytree" where
  "ex_fitted_once =
     (ex_config ModelAware 0 (Some 2))
       \<lparr>tree := Some ex_root_leaf, cardinality := Some 2, min_samples_leaf := Some 3,
        k := 3 / 20, split_dims := Some [0]\<rparr>"

definition ex_fitted_twice :: "real polytree" where
  "ex_fitted_twice = ex_fitted_once\<lparr>k := 9 / 20\<rparr>"

text \<open>
  The state of the build after the root of the four samples has been created, the
  result of \<open>_splitter\<close> at that root, and the tree that \<open>fit\<close> builds with
  \<open>max_depth = 1\<close>.
\<close>

definition ex_state :: build_state where
  "ex_state = \<lparr>index_node_global = 2, cur_split_dims = None, cur_actual_max_depth = 0\<rparr>"

definition ex_split_result :: "real split_result" where
  "ex_split_result =
     \<lparr>did_split = True, loss_best = Some 0, polys_best = Some (0, 1),
      data_best = Some (([[0], [1]], [0, 0]), ([[2], [3]], [1, 1])),
      j_feature_best = Some 0, threshold_best = Some 1, N_rows = 4\<rparr>"

definition ex_split_tree :: "real node" where
  "ex_split_tree =
     Node \<lparr>index = 1, loss = 1 / 2, poly = 0, data = None, n_samples = 4,
           j_feature = Some 0, threshold = Some 1, depth = 0, flag = False,
           test_loss = None, lower_loss = None\<rparr>
       (Some (Node \<lparr>index = 5, loss = 0, poly = 0, data = Some ([[0], [1]], [0, 0]),
                     n_samples = 2, j_feature = None, threshold = None, depth = 1,
                     flag = False, test_loss = None, lower_loss = None\<rparr> None None))
       (Some (Node \<lparr>index = 7, loss = 0, poly = 1, data = Some ([[2], [3]], [1, 1]),
                     n_samples = 2, j_feature = None, threshold = None, depth = 1,
                     flag = False, test_loss = None, lower_loss = None\<rparr> None None))"

text \<open>
  Six samples whose response jumps between \<open>x0 = 2\<close> and \<open>x0 = 3\<close>, and the tree that
  \<open>fit\<close> builds from them under \<open>model_aware\<close> with \<open>max_depth = 1\<close> and
  \<open>min_samples_leaf = 3\<close>.
\<close>

definition ex_X6 :: "row list" where
  "ex_X6 = [[0], [1], [2], [3], [4], [5]]"

definition ex_y6 :: "real list" where
  "ex_y6 = [0, 0, 0, 1, 1, 1]"

definition ex_split_tree6 :: "real node" where
  "ex_split_tree6 =
     Node \<lparr>index = 1, loss = 1 / 2, poly = 0, data = None, n_samples = 6,
           j_feature = Some 0, threshold = Some 2, depth = 0, flag = False,
           test_loss = None, lower_loss = None\<rparr>
       (Some (Node \<lparr>index = 5, loss = 0, poly = 0, data = Some ([[0], [1], [2]], [0, 0, 0]),
                     n_samples = 3, j_feature = None, threshold = None, depth = 1,
                     flag = False, test_loss = None, lower_loss = None\<rparr> None None))
       (Some (Node \<lparr>index = 7, loss = 0, poly = 1, data = Some ([[3], [4], [5]], [1, 1, 1]),
                     n_samples = 3, j_feature = None, threshold = None, depth = 1,
                     flag = False, test_loss = None, lower_loss = None\<rparr> None None))"

text \<open>
  Seven samples, all doubles, whose fourth and fifth feature values are the two doubles
  that follow 1, \<open>1 + 2^(-52)\<close> and \<open>1 + 2^(-51)\<close> (printed \<open>1.0000000000000002\<close> and
  \<open>1.0000000000000004\<close>); the response jumps between them.
\<close>

definition ex_lo :: real where
  "ex_lo = 4503599627370497 / 4503599627370496"

definition ex_hi :: real where
  "ex_hi = 4503599627370498 / 4503599627370496"

definition ex_X7 :: "row list" where
  "ex_X7 = [[0], [1 / 4], [1 / 2], [ex_lo], [ex_hi], [2], [3]]"

definition ex_y7 :: "real list" where
  "ex_y7 = [0, 0, 0, 0, 1, 1, 1]"



section \<open>Properties\<close>

subsection \<open>Pruning\<close>

lemma pruner_test_loss: "pruner L tol n X y = Inr n' \<Longrightarrow> \<exists>v. test_loss (attrs n') = Some v"
  by (cases n) (auto split: if_splits sum.splits option.splits prod.splits simp: Let_def)

lemma ex_split_data:
  "split_data (Some 0) (Some 0) [[-1], [1]] [0, 0] = Inr (([[-1]], [0]), ([[1]], [0]))"
  by (simp add: split_data_def Let_def upt_rec)

lemma ex_pruner_leaf:
  "pruner ex_lib tol (Node (ex_attrs i 2 2 1) None None) [[v]] [0]
     = Inr (Node ((ex_attrs i 2 2 1)\<lparr>test_loss := Some 4\<rparr>) None None)"
  by (simp add: ex_lib_def ex_attrs_def mse_def)

text \<open>
  Claim C2, which fails for the root. At a tree whose root predicts the held-out data
  exactly (test loss 0) while both leaves are off by 2 (test loss 4), the weighted loss of
  the children, 4, exceeds the root's own test loss with tolerance 0; yet \<open>prune\<close> keeps
  both children of the root and gives the root no \<open>test_loss\<close>.
\<close>

theorem prune_root_counterexample:
  "prune_tree ex_lib (ex_stump 0) [[-1], [1]] [0, 0] 0 =
     Inr (Node ((ex_attrs 1 0 4 0)\<lparr>j_feature := Some 0, threshold := Some 0\<rparr>)
       (Some (Node ((ex_attrs 5 2 2 1)\<lparr>test_loss := Some 4\<rparr>) None None))
       (Some (Node ((ex_attrs 7 2 2 1)\<lparr>test_loss := Some 4\<rparr>) None None)))
   \<and> mse ex_lib (poly (attrs (ex_stump 0))) [[-1], [1]] [0, 0] = 0
   \<and> (4 * 2 + 4 * 2) / (2 + 2) + (0 / 100) * (0::real) > 0"
  by (simp add: prune_tree_def ex_split_data ex_pruner_leaf ex_stump_def)
     (simp add: ex_attrs_def ex_lib_def mse_def)

lemma pruner_own_test_loss:
  assumes "X \<noteq> []" and "pruner L tol (Node f l r) X y = Inr n'"
  shows "test_loss (attrs n') = Some (mse L (poly f) X y)"
proof -
  from assms(1) have ne: "\<not> length X < 1" by (cases X) auto
  with assms(2) show ?thesis
    by (auto simp: Let_def split: if_splits sum.splits option.splits prod.splits)
qed

lemma pruner_no_children:
  assumes "X \<noteq> []" and "l = None \<or> r = None"
  shows "pruner L tol (Node f l r) X y = Inr (Node (f\<lparr>test_loss := Some (mse L (poly f) X y)\<rparr>) l r)"
proof -
  from assms(1) have ne: "\<not> length X < 1" by (cases X) auto
  with assms(2) show ?thesis
    by (auto simp: Let_def split: option.splits)
qed

lemma pruner_two_children:
  assumes "X \<noteq> []"
    and "split_data (j_feature f) (threshold f) X y = Inr ((Xl, yl), (Xr, yr))"
    and "pruner L tol nl Xl yl = Inr l'"
    and "pruner L tol nr Xr yr = Inr r'"
  shows "\<exists>tl tr. test_loss (attrs l') = Some tl \<and> test_loss (attrs r') = Some tr \<and>
     (let tloss = mse L (poly f) X y;
          wl = n_samples (attrs l'); wr = n_samples (attrs r');
          lower = (tl * real wl + tr * real wr) / real (wl + wr);
          f1 = f\<lparr>test_loss := Some tloss\<rparr>;
          f2 = f1\<lparr>lower_loss := Some (Fin lower)\<rparr>
      in pruner L tol (Node f (Some nl) (Some nr)) X y =
           (if wl + wr = 0 then Inr (Node (f1\<lparr>lower_loss := Some NaN\<rparr>) (Some l') (Some r'))
            else if lower + tol * tloss > tloss then Inr (Node f2 None None)
            else Inr (Node f2 (Some l') (Some r')))
         \<and> prune_tree L (Node f (Some nl) (Some nr)) X y (100 * tol) =
             Inr (Node f (Some l') (Some r')))"
proof -
  from pruner_test_loss[OF assms(3)] obtain tl where tl: "test_loss (attrs l') = Some tl"
    by blast
  from pruner_test_loss[OF assms(4)] obtain tr where tr: "test_loss (attrs r') = Some tr"
    by blast
  from assms(1) have ne: "\<not> length X < 1" by (cases X) auto
  have inner: "pruner L tol (Node f (Some nl) (Some nr)) X y =
      (let tloss = mse L (poly f) X y;
          wl = n_samples (attrs l'); wr = n_samples (attrs r');
          lower = (tl * real wl + tr * real wr) / real (wl + wr);
          f1 = f\<lparr>test_loss := Some tloss\<rparr>;
          f2 = f1\<lparr>lower_loss := Some (Fin lower)\<rparr>
       in if wl + wr = 0 then Inr (Node (f1\<lparr>lower_loss := Some NaN\<rparr>) (Some l') (Some r'))
            else if lower + tol * tloss > tloss then Inr (Node f2 None None)
            else Inr (Node f2 (Some l') (Some r')))"
    using assms(2-4) tl tr ne by (auto simp: Let_def)
  have outer: "prune_tree L (Node f (Some nl) (Some nr)) X y (100 * tol) =
      Inr (Node f (Some l') (Some r'))"
    using assms(2-4) by (simp add: prune_tree_def)
  show ?thesis
    using tl tr inner outer by (simp add: Let_def)
qed

text \<open>
  Claim C2 as amended: the collapse test is applied by \<open>pruner\<close>, that is at every node
  other than the root that receives at least one held-out row. Whatever such a node
  looks like, leaf or not, its \<open>test_loss\<close> is the mean squared error of its own polynomial
  on the rows reaching it, and a node without two children is otherwise returned as it
  is. For a node with two children, \<open>lower_loss\<close> is the average of the pruned children's
  test losses weighted by their \<open>n_samples\<close>, and both children are removed exactly when
  \<open>lower_loss + tol * test_loss > test_loss\<close> (\<open>tol\<close> being the percentage divided by 100);
  when both weights are 0 the average is \<open>0 / 0 = nan\<close>, the comparison is false and the
  children are kept. The same node taken as the root is not tested: \<open>prune\<close> only replaces
  its children by their pruned versions and leaves its own fields as they are.
\<close>

theorem pruner_collapse_rule:
  assumes "X \<noteq> []"
  shows "(\<forall>n'. pruner L tol (Node f l r) X y = Inr n' \<longrightarrow>
            test_loss (attrs n') = Some (mse L (poly f) X y))
     \<and> (l = None \<or> r = None \<longrightarrow>
          pruner L tol (Node f l r) X y =
            Inr (Node (f\<lparr>test_loss := Some (mse L (poly f) X y)\<rparr>) l r))
     \<and> (\<forall>nl nr Xl yl Xr yr l' r'.
          l = Some nl \<and> r = Some nr \<and>
          split_data (j_feature f) (threshold f) X y = Inr ((Xl, yl), (Xr, yr)) \<and>
          pruner L tol nl Xl yl = Inr l' \<and> pruner L tol nr Xr yr = Inr r' \<longrightarrow>
          (\<exists>tl tr. test_loss (attrs l') = Some tl \<and> test_loss (attrs r') = Some tr \<and>
             (let tloss = mse L (poly f) X y;
                  wl = n_samples (attrs l'); wr = n_samples (attrs r');
                  lower = (tl * real wl + tr * real wr) / real (wl + wr);
                  f1 = f\<lparr>test_loss := Some tloss\<rparr>;
                  f2 = f1\<lparr>lower_loss := Some (Fin lower)\<rparr>
              in pruner L tol (Node f l r) X y =
                   (if wl + wr = 0
                    then Inr (Node (f1\<lparr>lower_loss := Some NaN\<rparr>) (Some l') (Some r'))
                    else if lower + tol * tloss > tloss then Inr (Node f2 None None)
                    else Inr (Node f2 (Some l') (Some r')))
                 \<and> prune_tree L (Node f l r) X y (100 * tol) =
                     Inr (Node f (Some l') (Some r')))))"
proof (intro conjI allI impI)
  fix n' assume "pruner L tol (Node f l r) X y = Inr n'"
  from pruner_own_test_loss[OF assms this]
  show "test_loss (attrs n') = Some (mse L (poly f) X y)" .
next
  assume "l = None \<or> r = None"
  from pruner_no_children[OF assms this]
  show "pruner L tol (Node f l r) X y =
          Inr (Node (f\<lparr>test_loss := Some (mse L (poly f) X y)\<rparr>) l r)" .
next
  fix nl nr Xl yl Xr yr l' r'
  assume h: "l = Some nl \<and> r = Some nr \<and>
          split_data (j_feature f) (threshold f) X y = Inr ((Xl, yl), (Xr, yr)) \<and>
          pruner L tol nl Xl yl = Inr l' \<and> pruner L tol nr Xr yr = Inr r'"
  then have sd: "split_data (j_feature f) (threshold f) X y = Inr ((Xl, yl), (Xr, yr))"
    and pl: "pruner L tol nl Xl yl = Inr l'" and pr: "pruner L tol nr Xr yr = Inr r'"
    and lr: "l = Some nl" "r = Some nr" by simp_all
  from pruner_two_children[OF assms sd pl pr]
  show "\<exists>tl tr. test_loss (attrs l') = Some tl \<and> test_loss (attrs r') = Some tr \<and>
             (let tloss = mse L (poly f) X y;
                  wl = n_samples (attrs l'); wr = n_samples (attrs r');
                  lower = (tl * real wl + tr * real wr) / real (wl + wr);
                  f1 = f\<lparr>test_loss := Some tloss\<rparr>;
                  f2 = f1\<lparr>lower_loss := Some (Fin lower)\<rparr>
              in pruner L tol (Node f l r) X y =
                   (if wl + wr = 0
                    then Inr (Node (f1\<lparr>lower_loss := Some NaN\<rparr>) (Some l') (Some r'))
                    else if lower + tol * tloss > tloss then Inr (Node f2 None None)
                    else Inr (Node f2 (Some l') (Some r')))
                 \<and> prune_tree L (Node f l r) X y (100 * tol) =
                     Inr (Node f (Some l') (Some r')))"
    unfolding lr .
qed

theorem pruner_collapse_rule_witness:
  "pruner ex_lib 0 (ex_stump 0) [[-1], [1]] [0, 0] =
     Inr (Node ((ex_attrs 1 0 4 0)\<lparr>j_feature := Some 0, threshold := Some 0,
                 test_loss := Some 0, lower_loss := Some (Fin 4)\<rparr>) None None)
   \<and> mse ex_lib (poly (attrs (ex_stump 0))) [[-1], [1]] [0, 0] = 0
   \<and> prune_tree ex_lib (ex_stump 0) [[-1], [1]] [0, 0] (100 * 0) =
     Inr (Node ((ex_attrs 1 0 4 0)\<lparr>j_feature := Some 0, threshold := Some 0\<rparr>)
       (Some (Node ((ex_attrs 5 2 2 1)\<lparr>test_loss := Some 4\<rparr>) None None))
       (Some (Node ((ex_attrs 7 2 2 1)\<lparr>test_loss := Some 4\<rparr>) None None)))
   \<and> pruner ex_lib 0 (Node (ex_attrs 5 2 2 1) None None) [[-1]] [0] =
     Inr (Node ((ex_attrs 5 2 2 1)\<lparr>test_loss := Some (mse ex_lib 2 [[-1]] [0])\<rparr>) None None)
   \<and> mse ex_lib 2 [[-1]] [0] = 4"
proof -
  let ?f = "(ex_attrs 1 0 4 0)\<lparr>j_feature := Some 0, threshold := Some 0\<rparr>"
  let ?nl = "Node (ex_attrs 5 2 2 1) None None :: real node"
  let ?nr = "Node (ex_attrs 7 2 2 1) None None :: real node"
  have h1: "[[-1], [1::real]] \<noteq> []" by simp
  have h2: "split_data (j_feature ?f) (threshold ?f) [[-1], [1]] [0, 0]
      = Inr (([[-1]], [0]), ([[1]], [0]))"
    by (simp add: ex_split_data)
  have m: "mse ex_lib (poly ?f) [[-1], [1]] [0, 0] = 0"
    by (simp add: ex_attrs_def ex_lib_def mse_def)
  have m2: "mse ex_lib 2 [[-1]] [0] = 4"
    by (simp add: ex_lib_def mse_def)
  note two = pruner_collapse_rule[OF h1, of ex_lib 0 ?f "Some ?nl" "Some ?nr" "[0, 0]",
      THEN conjunct2, THEN conjunct2, rule_format,
      OF conjI[OF refl conjI[OF refl conjI[OF h2 conjI[OF ex_pruner_leaf ex_pruner_leaf]]]]]
  have h3: "[[-1::real]] \<noteq> []" by simp
  note leaf = pruner_collapse_rule[OF h3, of ex_lib 0 "ex_attrs 5 2 2 1" None None "[0]",
      THEN conjunct2, THEN conjunct1, rule_format, OF disjI1[OF refl]]
  have p: "poly (ex_attrs 5 2 2 1) = 2" by (simp add: ex_attrs_def)
  show ?thesis
    unfolding ex_stump_def
    using two m m2 leaf[unfolded p]
    by (simp add: Let_def ex_attrs_def del: pruner.simps)
qed

text \<open>
  Claim C3, which fails for the children. A node with two children that receives no
  held-out row is returned with \<open>test_loss = 0\<close> and \<open>n_samples = 0\<close>, but its children are
  not visited: they keep their \<open>n_samples = 2\<close> and get no \<open>test_loss\<close>.
\<close>

theorem pruner_empty_counterexample:
  "pruner ex_lib 0 (ex_stump 0) [] [] =
     Inr (Node ((ex_attrs 1 0 0 0)\<lparr>j_feature := Some 0, threshold := Some 0,
                 test_loss := Some 0\<rparr>)
       (Some (Node (ex_attrs 5 2 2 1) None None)) (Some (Node (ex_attrs 7 2 2 1) None None)))
   \<and> test_loss (ex_attrs 5 2 2 1) = None \<and> n_samples (ex_attrs 5 2 2 1) = 2"
  by (simp add: ex_stump_def ex_attrs_def)

text \<open>
  Claim C3 as amended: a node that \<open>pruner\<close> is called on with no held-out row is
  assigned \<open>test_loss = 0\<close> and \<open>n_samples = 0\<close> and returned at once with nothing else
  changed: its children are neither removed nor visited, so the whole subtree below it
  is as before.
\<close>

theorem pruner_empty_subset:
  "pruner L tol (Node f l r) [] y = Inr (Node (f\<lparr>test_loss := Some 0, n_samples := 0\<rparr>) l r)"
  by simp

theorem pruner_empty_subset_witness:
  "pruner ex_lib 0 (ex_stump 0) [] [] =
     Inr (Node ((attrs (ex_stump 0))\<lparr>test_loss := Some 0, n_samples := 0\<rparr>)
            (left (ex_stump 0)) (right (ex_stump 0)))"
  using pruner_empty_subset[of ex_lib 0 "attrs (ex_stump 0)" "left (ex_stump 0)" "right (ex_stump 0)" "[]"]
  by simp

text \<open>
  Claim C10: on a tree whose root is a leaf, \<open>prune\<close> raises an error. The top-level code
  splits the held-out data by the root's \<open>j_feature\<close> and \<open>threshold\<close>; where these are
  \<open>None\<close>, as \<open>_create_node\<close> leaves them, the error is the \<open>TypeError\<close> of that
  comparison, and whatever they are the call of \<open>pruner\<close> on the missing child fails.
\<close>

theorem prune_leaf_root_fails:
  assumes "tree self = Some t" and "left t = None" and "right t = None"
  shows "(\<exists>e. prune L self X y tol = Inl e)
     \<and> (j_feature (attrs t) = None \<longrightarrow> prune L self X y tol = Inl TypeError)"
  using assms
  by (auto simp: prune_def prune_tree_def split_data_def Let_def
           split: sum.splits option.splits prod.splits)

theorem prune_leaf_root_fails_witness:
  "prune ex_lib (ex_self (Some (Node (ex_attrs 1 0 4 0) None None))) [[-1], [1]] [0, 0] 0
     = Inl TypeError"
  using prune_leaf_root_fails[of "ex_self (Some (Node (ex_attrs 1 0 4 0) None None))"
      "Node (ex_attrs 1 0 4 0) None None" ex_lib "[[-1], [1]]" "[0, 0]" 0]
  by (simp add: ex_self_def ex_attrs_def)

subsection \<open>Prediction\<close>

text \<open>Neither loop of the smoothing ever reads the slot of depth 0.\<close>

lemma skip_nan_upd0: "skip_nan (b[0 := v]) i = skip_nan b i"
  by (induction i) auto

lemma blend_upd0: "blend kk (b[0 := v]) i s = blend kk b i s"
  by (induction i arbitrary: s) (auto split: option.splits)

lemma smooth_ignores_root:
  "0 < skip_nan b (amd + 1) \<Longrightarrow> smooth kk amd (b[0 := v]) = smooth kk amd b"
  by (simp add: smooth_def Let_def skip_nan_upd0 blend_upd0 del: skip_nan.simps blend.simps)

text \<open>
  Claim C1 at a concrete tree of depth 2 with \<open>k = 2\<close>. The row \<open>[-1]\<close> ends in the leaf
  predicting 3 (2 samples) below the node predicting 6 (4 samples) below the root
  predicting \<open>p\<close> (8 samples). The loop first blends the leaf with itself,
  \<open>(3 * 2 + 3 * 2) / (2 + 2) = 3\<close>, then with its parent, \<open>(3 * 4 + 6 * 2) / (2 + 4) = 4\<close>,
  and stops at \<open>i = 0\<close>: the result is 4 whatever the root predicts. The rows \<open>[1]\<close> (leaf 2) and
  \<open>[-3]\<close> (leaf 0, blended with 6 to 2) show the same.
\<close>

theorem predict_ignores_root:
  "predict ex_lib ((ex_self (Some (ex_deep p)))\<lparr>actual_max_depth := 1, k := 2\<rparr>)
     [[-1], [1], [-3]] = Inr [Some 4, Some 2, Some 2]"
  by (simp add: predict_def ex_self_def ex_deep_def ex_attrs_def ex_lib_def Let_def upt_rec
        smooth_def numeral_2_eq_2 numeral_3_eq_3)

subsection \<open>Fitting\<close>

lemmas ex_eval = fit_def build_tree_def create_node_def fit_poly_def mse_def ex_lib_def
  ex_config_def ex_X_def ex_y_def splitter_def initial_best_def run_search_def
  fit_children_def ncols_def column_def threshold_candidates_def
  try_threshold_def split_data_def below_best_def Let_def upt_rec split_traverse_node.simps

lemmas ex_eval2 = ex_eval ex_root_leaf_def ex_state_def ex_split_result_def ex_split_tree_def
  agnostic_loss_def np_std_def real_sqrt_divide

lemma ex_fit_once: "fit ex_lib (ex_config ModelAware 0 (Some 2)) ex_X ex_y = Inr ex_fitted_once"
  by (simp add: ex_fitted_once_def ex_root_leaf_def ex_eval)

lemma ex_fit_twice: "fit ex_lib ex_fitted_once ex_X ex_y = Inr ex_fitted_twice"
  by (simp add: ex_fitted_twice_def ex_fitted_once_def ex_root_leaf_def ex_eval)

lemma fit_scales_k:
  assumes "fit L self X y = Inr s"
  shows "\<exists>m. min_samples_leaf s = Some m \<and> k s = k self * real m
     \<and> (m = get_cardinality L (ncols X) \<longrightarrow> m = nat \<lceil>real m * 1.25\<rceil>)"
  using assms
  by (auto simp: fit_def Let_def split: sum.splits prod.splits option.splits if_splits)

text \<open>
  Claim C9 fails at the second call. \<open>fit\<close> multiplies the attribute \<open>k\<close> in place by
  \<open>min_samples_leaf\<close> each time it runs: after a first call \<open>k\<close> is the constructor's \<open>k\<close>
  times \<open>min_samples_leaf\<close>, and after a second call on data of the same dimension it is
  the constructor's \<open>k\<close> times \<open>min_samples_leaf\<close> squared (\<open>min_samples_leaf\<close> itself is
  the same after both calls).
\<close>

theorem fit_twice_scales_k_twice:
  assumes "fit L self X y = Inr s1" and "fit L s1 X' y' = Inr s2" and "ncols X' = ncols X"
  shows "\<exists>m. min_samples_leaf s1 = Some m \<and> min_samples_leaf s2 = Some m
     \<and> k s1 = k self * real m \<and> k s2 = k self * real m * real m"
proof -
  from fit_scales_k[OF assms(1)] obtain m where
    m: "min_samples_leaf s1 = Some m" "k s1 = k self * real m"
       "m = get_cardinality L (ncols X) \<longrightarrow> m = nat \<lceil>real m * 1.25\<rceil>" by blast
  from assms(2) m assms(3) have "min_samples_leaf s2 = Some m \<and> k s2 = k s1 * real m"
    by (auto simp: fit_def Let_def split: sum.splits prod.splits option.splits if_splits)
  with m show ?thesis by auto
qed

theorem fit_twice_scales_k_twice_witness:
  "fit ex_lib (ex_config ModelAware 0 (Some 2)) ex_X ex_y = Inr ex_fitted_once
   \<and> fit ex_lib ex_fitted_once ex_X ex_y = Inr ex_fitted_twice
   \<and> k (ex_config ModelAware 0 (Some 2)) = 1 / 20
   \<and> min_samples_leaf ex_fitted_twice = Some 3
   \<and> k ex_fitted_once = 3 / 20 \<and> k ex_fitted_twice = 9 / 20"
  using fit_twice_scales_k_twice[OF ex_fit_once ex_fit_twice refl] ex_fit_once ex_fit_twice
  by (auto simp: ex_fitted_twice_def ex_fitted_once_def ex_config_def)

lemma create_node_refits:
  assumes "create_node L X y dep st = Inr (n, st')"
  shows "index_node_global st' = index_node_global st + 2
     \<and> index (attrs n) = index_node_global st + 1
     \<and> loss (attrs n) = mse L (fit_model L X y) X y
     \<and> poly (attrs n) = fit_model L X y"
  using assms
  by (auto simp: create_node_def fit_poly_def Let_def split: if_splits)

text \<open>
  Claim C8 at the six samples, under \<open>model_aware\<close> with \<open>max_depth = 1\<close> and
  \<open>min_samples_leaf = 3\<close>. The counter \<open>index_node_global\<close> is incremented by every call
  of \<open>_fit_poly\<close> and once more by every \<open>_create_node\<close>. The root is fitted (counter 1)
  and numbered 1 (counter 2); the search fits the two children of the only admissible
  split, \<open>x0 <= 2\<close> (counter 4); \<open>_create_node\<close> then fits the left child again
  (counter 5) and numbers it 5 (counter 6), and fits the right child again (counter 7)
  and numbers it 7 (counter 8). Without the second fit of each child the numbers would be
  4 and 5. Each child's \<open>loss\<close> is the one of that second fit; only its \<open>poly\<close> is then
  overwritten by the polynomial of the search. The data of the root is deleted.
\<close>

theorem fit_refits_children:
  "fit ex_lib (ex_config ModelAware 1 (Some 3)) ex_X6 ex_y6 =
     Inr ((ex_config ModelAware 1 (Some 3))
           \<lparr>cardinality := Some 2, k := 3 / 20, split_dims := Some [0],
            tree := Some ex_split_tree6\<rparr>)
   \<and> build_tree ex_lib
         ((ex_config ModelAware 1 (Some 3))\<lparr>cardinality := Some 2, k := 3 / 20\<rparr>) ex_X6 ex_y6 =
       Inr (ex_split_tree6,
            \<lparr>index_node_global = 8, cur_split_dims = Some [0], cur_actual_max_depth = 0\<rparr>)
   \<and> map_option (index \<circ> attrs) (left ex_split_tree6) = Some 5
   \<and> map_option (index \<circ> attrs) (right ex_split_tree6) = Some 7
   \<and> data (attrs ex_split_tree6) = None"
  by (simp add: ex_split_tree6_def ex_X6_def ex_y6_def ex_eval)

subsection \<open>First occurrences in a sorted list\<close>

lemma first_index_le: "i < length xs \<Longrightarrow> xs ! i = v \<Longrightarrow> first_index xs v \<le> i"
  by (induction xs arbitrary: i) (auto simp: nth_Cons split: nat.splits)

lemma first_index_less: "v \<in> set xs \<Longrightarrow> first_index xs v < length xs"
  by (induction xs) auto

lemma nth_first_index: "v \<in> set xs \<Longrightarrow> xs ! first_index xs v = v"
  by (induction xs) auto

lemma before_first_index: "i < first_index xs v \<Longrightarrow> xs ! i \<noteq> v"
  by (induction xs arbitrary: i) (auto simp: nth_Cons split: nat.splits if_splits)

lemma first_index_mono:
  assumes "sorted xs" and "v \<in> set xs" and "w \<in> set xs" and "v < w"
  shows "first_index xs v < first_index xs w"
proof (rule ccontr)
  assume "\<not> first_index xs v < first_index xs w"
  then have le: "first_index xs w \<le> first_index xs v" by simp
  have "xs ! first_index xs w \<le> xs ! first_index xs v"
    using assms(1) le first_index_less[OF assms(2)] by (simp add: sorted_nth_mono)
  then show False
    using nth_first_index[OF assms(2)] nth_first_index[OF assms(3)] assms(4) by simp
qed

lemma strict_sorted_unique_index:
  fixes xs :: "real list"
  assumes "sorted xs"
  shows "sorted_wrt (<) (unique_index xs)"
proof -
  have "sorted_wrt (<) (sort (remdups xs))"
    by (simp add: strict_sorted_iff)
  then have "sorted_wrt (\<lambda>a b. first_index xs a < first_index xs b) (sort (remdups xs))"
    by (rule sorted_wrt_mono_rel[rotated]) (auto intro: first_index_mono[OF assms])
  then show ?thesis
    by (simp add: unique_index_def sorted_wrt_map)
qed

lemma set_unique_index:
  fixes xs :: "real list"
  assumes "sorted xs"
  shows "set (unique_index xs) = {i. i < length xs \<and> (i = 0 \<or> xs ! (i - 1) \<noteq> xs ! i)}"
proof (intro set_eqI iffI)
  fix i assume "i \<in> set (unique_index xs)"
  then obtain v where v: "v \<in> set xs" "i = first_index xs v"
    by (auto simp: unique_index_def)
  have "i = 0 \<or> xs ! (i - 1) \<noteq> xs ! i"
  proof (cases "i = 0")
    case False
    then have "i - 1 < first_index xs v" using v by simp
    from before_first_index[OF this] show ?thesis
      using nth_first_index[OF v(1)] v(2) by simp
  qed simp
  then show "i \<in> {i. i < length xs \<and> (i = 0 \<or> xs ! (i - 1) \<noteq> xs ! i)}"
    using first_index_less[OF v(1)] v(2) by simp
next
  fix i assume "i \<in> {i. i < length xs \<and> (i = 0 \<or> xs ! (i - 1) \<noteq> xs ! i)}"
  then have i: "i < length xs" "i = 0 \<or> xs ! (i - 1) \<noteq> xs ! i" by auto
  let ?v = "xs ! i"
  have mem: "?v \<in> set xs" using i(1) by simp
  have le: "first_index xs ?v \<le> i" using first_index_le[OF i(1)] by simp
  have "first_index xs ?v = i"
  proof (rule ccontr)
    assume ne: "first_index xs ?v \<noteq> i"
    with le have lt: "first_index xs ?v \<le> i - 1" "i \<noteq> 0" by auto
    have "xs ! first_index xs ?v \<le> xs ! (i - 1)"
      using assms lt i(1) by (simp add: sorted_nth_mono)
    moreover have "xs ! (i - 1) \<le> xs ! i"
      using assms i(1) by (simp add: sorted_nth_mono)
    ultimately have "xs ! (i - 1) = xs ! i"
      using nth_first_index[OF mem] by simp
    with i(2) lt(2) show False by simp
  qed
  then show "i \<in> set (unique_index xs)"
    using mem by (auto simp: unique_index_def intro!: image_eqI[where x = ?v])
qed

lemma unique_index_sorted_eq:
  fixes xs :: "real list"
  assumes "sorted xs"
  shows "unique_index xs = filter (\<lambda>i. i = 0 \<or> xs ! (i - 1) \<noteq> xs ! i) [0..<length xs]"
proof (rule strict_sorted_equal)
  show "sorted_wrt (<) (unique_index xs)" by (rule strict_sorted_unique_index[OF assms])
  show "sorted_wrt (<) (filter (\<lambda>i. i = 0 \<or> xs ! (i - 1) \<noteq> xs ! i) [0..<length xs])"
    by (simp add: sorted_wrt_filter)
  show "set (unique_index xs) = set (filter (\<lambda>i. i = 0 \<or> xs ! (i - 1) \<noteq> xs ! i) [0..<length xs])"
    by (auto simp: set_unique_index[OF assms])
qed

lemma sorted_sorted_column: "sorted (sorted_column X d)"
  by (simp add: sorted_column_def sort_along_def)

lemma length_sorted_column: "length (sorted_column X d) = length X"
  by (simp add: sorted_column_def sort_along_def)

lemma boundaries_eq:
  "boundaries X d =
     filter (\<lambda>i. sorted_column X d ! (i - 1) \<noteq> sorted_column X d ! i) [1..<length X]"
proof (cases "length X = 0")
  case True
  then show ?thesis
    by (simp add: boundaries_def unique_index_sorted_eq[OF sorted_sorted_column] length_sorted_column)
next
  case False
  then have "[0..<length X] = 0 # [1..<length X]" by (simp add: upt_rec)
  moreover have "filter (\<lambda>i. i = 0 \<or> sorted_column X d ! (i - 1) \<noteq> sorted_column X d ! i) [1..<length X]
     = filter (\<lambda>i. sorted_column X d ! (i - 1) \<noteq> sorted_column X d ! i) [1..<length X]"
    by (rule filter_cong) auto
  ultimately show ?thesis
    by (simp add: boundaries_def unique_index_sorted_eq[OF sorted_sorted_column] length_sorted_column)
qed

subsection \<open>The two parts of a split\<close>

lemma map_nth_filter: "map (\<lambda>i. xs ! i) (filter (\<lambda>i. P (xs ! i)) [0..<length xs]) = filter P xs"
proof -
  have "filter P xs = filter P (map (\<lambda>i. xs ! i) [0..<length xs])"
    by (simp add: map_nth)
  also have "\<dots> = map (\<lambda>i. xs ! i) (filter (\<lambda>i. P (xs ! i)) [0..<length xs])"
    by (simp add: filter_map comp_def)
  finally show ?thesis by simp
qed

lemma split_data_unfold:
  assumes "\<not> ((\<exists>x \<in> set X. length x \<le> j) \<or> length y < length X)"
  shows "split_data (Some j) (Some t) X y =
     Inr ((filter (\<lambda>x. x ! j \<le> t) X,
           map (\<lambda>i. y ! i) (filter (\<lambda>i. X ! i ! j \<le> t) [0..<length X])),
          (filter (\<lambda>x. \<not> x ! j \<le> t) X,
           map (\<lambda>i. y ! i) (filter (\<lambda>i. \<not> X ! i ! j \<le> t) [0..<length X])))"
proof -
  have idx: "filter (\<lambda>i. i \<notin> set (filter (\<lambda>i. X ! i ! j \<le> t) [0..<length X])) [0..<length X]
      = filter (\<lambda>i. \<not> X ! i ! j \<le> t) [0..<length X]"
    by (rule filter_cong) auto
  have idx2: "filter (\<lambda>i. i < length X \<longrightarrow> \<not> X ! i ! j \<le> t) [0..<length X]
      = filter (\<lambda>i. \<not> X ! i ! j \<le> t) [0..<length X]"
    by (rule filter_cong) auto
  show ?thesis
    unfolding split_data_def Let_def
    using assms map_nth_filter[of X "\<lambda>x. x ! j \<le> t"] map_nth_filter[of X "\<lambda>x. \<not> x ! j \<le> t"]
    by (simp add: idx idx2)
qed

lemma split_data_left:
  assumes "split_data (Some j) (Some t) X y = Inr ((Xl, yl), (Xr, yr))"
  shows "Xl = filter (\<lambda>x. x ! j \<le> t) X" and "Xr = filter (\<lambda>x. \<not> x ! j \<le> t) X"
    and "length yl = length Xl" and "length yr = length Xr"
proof -
  have c: "\<not> ((\<exists>x \<in> set X. length x \<le> j) \<or> length y < length X)"
    using assms by (auto simp: split_data_def split: if_splits)
  from assms split_data_unfold[OF c, of t]
  have e: "Xl = filter (\<lambda>x. x ! j \<le> t) X" "Xr = filter (\<lambda>x. \<not> x ! j \<le> t) X"
    "yl = map (\<lambda>i. y ! i) (filter (\<lambda>i. X ! i ! j \<le> t) [0..<length X])"
    "yr = map (\<lambda>i. y ! i) (filter (\<lambda>i. \<not> X ! i ! j \<le> t) [0..<length X])"
    by simp_all
  show "Xl = filter (\<lambda>x. x ! j \<le> t) X" "Xr = filter (\<lambda>x. \<not> x ! j \<le> t) X"
    by (rule e)+
  have "length (filter (\<lambda>x. x ! j \<le> t) X)
      = length (map (\<lambda>i. X ! i) (filter (\<lambda>i. X ! i ! j \<le> t) [0..<length X]))"
    by (simp only: map_nth_filter[of X "\<lambda>x. x ! j \<le> t"])
  then show "length yl = length Xl" using e by simp
  have "length (filter (\<lambda>x. \<not> x ! j \<le> t) X)
      = length (map (\<lambda>i. X ! i) (filter (\<lambda>i. \<not> X ! i ! j \<le> t) [0..<length X]))"
    by (simp only: map_nth_filter[of X "\<lambda>x. \<not> x ! j \<le> t"])
  then show "length yr = length Xr" using e by simp
qed

lemma split_data_lengths:
  assumes "split_data (Some j) (Some t) X y = Inr ((Xl, yl), (Xr, yr))"
  shows "length Xl + length Xr = length X"
  using split_data_left(1,2)[OF assms] sum_length_filter_compl[of "\<lambda>x. x ! j \<le> t" X] by simp

lemma split_data_Some:
  assumes "split_data jf thr X y = Inr r"
  shows "\<exists>j t. jf = Some j \<and> thr = Some t"
  using assms by (auto simp: split_data_def split: option.splits)


subsection \<open>Counting along a sorted column\<close>

lemma length_filter_insort_key:
  "length (filter P (insort_key f x xs)) = length (filter P (x # xs))"
  by (induction xs) auto

lemma length_filter_sort_key: "length (filter P (sort_key f xs)) = length (filter P xs)"
  by (induction xs) (simp_all add: length_filter_insort_key)

lemma count_le_sorted_column:
  assumes "\<forall>x \<in> set X. d < length x"
  shows "length (filter (\<lambda>x. x ! d \<le> t) X) = length (filter (\<lambda>v. v \<le> t) (sorted_column X d))"
proof -
  have "length (filter (\<lambda>v. v \<le> t) (sorted_column X d))
      = length (filter (\<lambda>i. X ! i ! d \<le> t) (sort_key (\<lambda>i. X ! i ! d) [0..<length X]))"
    by (simp add: sorted_column_def sort_along_def filter_map comp_def)
  also have "\<dots> = length (filter (\<lambda>i. X ! i ! d \<le> t) [0..<length X])"
    by (rule length_filter_sort_key)
  also have "\<dots> = length (map (\<lambda>i. X ! i) (filter (\<lambda>i. X ! i ! d \<le> t) [0..<length X]))"
    by simp
  also have "\<dots> = length (filter (\<lambda>x. x ! d \<le> t) X)"
    by (simp only: map_nth_filter[of X "\<lambda>x. x ! d \<le> t"])
  finally show ?thesis by simp
qed

lemma sorted_filter_le_take:
  fixes xs :: "real list"
  assumes "sorted xs" and "0 < s" and "s < length xs" and "xs ! (s - 1) \<le> t" and "t < xs ! s"
  shows "filter (\<lambda>v. v \<le> t) xs = take s xs"
proof -
  have l: "\<forall>v \<in> set (take s xs). v \<le> t"
  proof
    fix v assume "v \<in> set (take s xs)"
    then obtain i where i: "i < s" "v = xs ! i"
      using assms(3) by (auto simp: in_set_conv_nth)
    then have "xs ! i \<le> xs ! (s - 1)"
      using assms(1,3) by (intro sorted_nth_mono) auto
    with i assms(4) show "v \<le> t" by simp
  qed
  have r: "\<forall>v \<in> set (drop s xs). \<not> v \<le> t"
  proof
    fix v assume "v \<in> set (drop s xs)"
    then obtain i where i: "i < length xs - s" "v = xs ! (s + i)"
      by (auto simp: in_set_conv_nth)
    then have "xs ! s \<le> xs ! (s + i)"
      using assms(1) by (intro sorted_nth_mono) auto
    with i assms(5) show "\<not> v \<le> t" by simp
  qed
  have "filter (\<lambda>v. v \<le> t) xs = filter (\<lambda>v. v \<le> t) (take s xs @ drop s xs)" by simp
  also have "\<dots> = take s xs"
    using l r by (simp only: filter_append) (simp add: filter_id_conv filter_empty_conv)
  finally show ?thesis .
qed

lemma boundary_props:
  assumes "s \<in> set (boundaries X d)"
  shows "0 < s" and "s < length X" and "sorted_column X d ! (s - 1) < sorted_column X d ! s"
proof -
  from assms have s: "1 \<le> s" "s < length X" "sorted_column X d ! (s - 1) \<noteq> sorted_column X d ! s"
    by (auto simp: boundaries_eq)
  show "0 < s" "s < length X" using s by auto
  have "sorted_column X d ! (s - 1) \<le> sorted_column X d ! s"
    using s by (intro sorted_nth_mono[OF sorted_sorted_column]) (auto simp: length_sorted_column)
  with s(3) show "sorted_column X d ! (s - 1) < sorted_column X d ! s" by simp
qed

lemma boundary_threshold_count:
  assumes "s \<in> set (boundaries X d)" and "\<forall>x \<in> set X. d < length x"
    and "sorted_column X d ! (s - 1) \<le> t" and "t < sorted_column X d ! s"
  shows "length (filter (\<lambda>x. x ! d \<le> t) X) = s"
proof -
  let ?Xd = "sorted_column X d"
  note b = boundary_props[OF assms(1)]
  have "filter (\<lambda>v. v \<le> t) ?Xd = take s ?Xd"
    using b assms(3,4) by (intro sorted_filter_le_take[OF sorted_sorted_column])
               (auto simp: length_sorted_column)
  then have "length (filter (\<lambda>v. v \<le> t) ?Xd) = s"
    using b(2) by (simp add: length_sorted_column)
  with count_le_sorted_column[OF assms(2), of t] show ?thesis by simp
qed

subsection \<open>The threshold search keeps its invariant\<close>

lemma try_threshold_ok:
  assumes "try_threshold L self X y j t (b, st) = Inr (b', st')" and "best_ok self X y b"
  shows "best_ok self X y b'"
proof -
  from assms(1) obtain Xl yl Xr yr where
    sd: "split_data (Some j) (Some t) X y = Inr ((Xl, yl), (Xr, yr))"
    by (auto simp: try_threshold_def split: sum.splits prod.splits)
  from assms(1) sd obtain msl where msl: "min_samples_leaf self = Some msl"
    by (auto simp: try_threshold_def split: option.splits)
  show ?thesis
  proof (cases "b' = b")
    case True
    with assms(2) show ?thesis by simp
  next
    case False
    with assms(1) sd msl have
      "did_split b'" "j_feature_best b' = Some j" "threshold_best b' = Some t"
      "data_best b' = Some ((Xl, yl), (Xr, yr))" "msl \<le> length Xl" "msl \<le> length Xr"
      by (auto simp: try_threshold_def Let_def
               split: if_splits criterion.splits sum.splits prod.splits fl.splits)
    with sd msl show ?thesis by (auto simp: best_ok_def)
  qed
qed

lemma search_thresholds_ok:
  assumes "search_thresholds L self X y j ts bs = Inr bs'" and "best_ok self X y (fst bs)"
  shows "best_ok self X y (fst bs')"
  using assms
proof (induction ts arbitrary: bs)
  case Nil
  then show ?case by simp
next
  case (Cons t ts)
  from Cons.prems(1) obtain bs1 where
    s1: "try_threshold L self X y j t bs = Inr bs1" and
    s2: "search_thresholds L self X y j ts bs1 = Inr bs'"
    by (auto split: sum.splits)
  from try_threshold_ok[of L self X y j t "fst bs" "snd bs" "fst bs1" "snd bs1"] s1 Cons.prems(2)
  have "best_ok self X y (fst bs1)" by simp
  from Cons.IH[OF s2 this] show ?case .
qed

lemma search_features_ok:
  assumes "search_features L self X y js bs = Inr bs'" and "best_ok self X y (fst bs)"
  shows "best_ok self X y (fst bs')"
  using assms
proof (induction js arbitrary: bs)
  case Nil
  then show ?case by simp
next
  case (Cons j js)
  from Cons.prems(1) obtain ts bs1 where
    s1: "search_thresholds L self X y j ts bs = Inr bs1" and
    s2: "search_features L self X y js bs1 = Inr bs'"
    by (auto split: sum.splits)
  from search_thresholds_ok[OF s1 Cons.prems(2)] Cons.IH[OF s2] show ?case by simp
qed

subsection \<open>Accepted splits respect the minimum leaf size\<close>

lemma initial_best_no_split:
  "initial_best self node N = Inr b0 \<Longrightarrow> \<not> did_split b0"
  by (auto simp: initial_best_def split: criterion.splits)

lemma run_search_thresholds_ok:
  assumes "run_search L self X y dep (b0, st0) = Inr (b1, st2)"
    and "splitting_criterion self \<noteq> LossGradient" and "best_ok self X y b0"
  shows "best_ok self X y b1"
proof (cases "dep < max_depth self")
  case True
  with assms(1,2) have "search_features L self X y [0..<ncols X] (b0, st0) = Inr (b1, st2)"
    by (simp add: run_search_def)
  from search_features_ok[OF this] assms(3) show ?thesis by simp
next
  case False
  with assms(1,3) show ?thesis by (simp add: run_search_def)
qed

lemma splitter_accepts_admissible:
  assumes "splitter L self node st = Inr (result, st')" and "did_split result"
    and crit: "splitting_criterion self \<noteq> LossGradient"
  shows "\<exists>X y msl j t Xl yl Xr yr.
           data (attrs node) = Some (X, y) \<and> min_samples_leaf self = Some msl \<and>
           j_feature_best result = Some j \<and> threshold_best result = Some t \<and>
           split_data (Some j) (Some t) X y = Inr ((Xl, yl), (Xr, yr)) \<and>
           data_best result = Some ((Xl, yl), (Xr, yr)) \<and>
           msl \<le> length Xl \<and> msl \<le> length Xr"
proof -
  from assms(1) obtain X y b0 b1 st0 st2 st5 where
    dat: "data (attrs node) = Some (X, y)" and
    ini: "initial_best self node (length X) = Inr b0" and
    run: "run_search L self X y (depth (attrs node)) (b0, st0) = Inr (b1, st2)" and
    chi: "fit_children L self X y (b1, st2) = Inr (result, st5)"
    by (auto simp: splitter_def Let_def split: option.splits sum.splits prod.splits)
  note nb0 = initial_best_no_split[OF ini]
  have "best_ok self X y b0" using nb0 by (simp add: best_ok_def)
  from run_search_thresholds_ok[OF run crit this] have b1: "best_ok self X y b1" .
  have ok: "best_ok self X y result"
  proof (cases "splitting_criterion self \<noteq> ModelAware \<and> did_split b1")
    case False
    with chi have "result = b1" by (auto simp: fit_children_def)
    with b1 show ?thesis by simp
  next
    case True
    with chi crit obtain lb pb where
      "result = b1\<lparr>loss_best := lb, polys_best := pb\<rparr>"
      by (auto simp: fit_children_def Let_def split: sum.splits prod.splits)
    with b1 show ?thesis by (auto simp: best_ok_def)
  qed
  with assms(2) dat show ?thesis by (auto simp: best_ok_def)
qed

lemma create_node_leaf:
  assumes "create_node L X y dep st = Inr (n, st')"
  shows "left n = None" and "right n = None" and "n_samples (attrs n) = length X"
  using assms by (auto simp: create_node_def split: sum.splits prod.splits)

lemma split_traverse_node_children:
  assumes "split_traverse_node L self node st = Inr (t, st')"
    and "min_samples_leaf self = Some msl" and "left node = None" and "right node = None"
    and "splitting_criterion self \<noteq> LossGradient"
  shows "children_ok msl t \<and> n_samples (attrs t) = n_samples (attrs node)"
  using assms
proof (induction L self node st arbitrary: t st' rule: split_traverse_node.induct)
  case (1 L self node st)
  from "1.prems"(1) obtain result st1 where
    sp: "splitter L self node st = Inr (result, st1)"
    by (subst (asm) split_traverse_node.simps) (auto split: sum.splits prod.splits)
  show ?case
  proof (cases "did_split result")
    case False
    with "1.prems"(1) sp have "t = node"
      by (subst (asm) split_traverse_node.simps) simp
    with "1.prems"(3,4) show ?thesis by (cases node) simp
  next
    case True
    from splitter_accepts_admissible[OF sp True "1.prems"(5)] "1.prems"(2) obtain X y j thr Xl yl Xr yr where
      sa: "data_best result = Some ((Xl, yl), (Xr, yr))" "msl \<le> length Xl" "msl \<le> length Xr"
      by auto
    from "1.prems"(1) sp True sa obtain pl pr cl st2 cr st3 tl' st4 tr' st5 where
      pb: "polys_best result = Some (pl, pr)" and
      c1: "create_node L Xl yl (depth (attrs node) + 1) st1 = Inr (cl, st2)" and
      c2: "create_node L Xr yr (depth (attrs node) + 1) st2 = Inr (cr, st3)" and
      r1: "split_traverse_node L self (Node ((attrs cl)\<lparr>poly := pl\<rparr>) (left cl) (right cl)) st3
             = Inr (tl', st4)" and
      r2: "split_traverse_node L self (Node ((attrs cr)\<lparr>poly := pr\<rparr>) (left cr) (right cr)) st4
             = Inr (tr', st5)" and
      t: "t = Node (if \<not> all_data self
                    then (attrs node)\<lparr>j_feature := j_feature_best result,
                                       threshold := threshold_best result, data := None\<rparr>
                    else (attrs node)\<lparr>j_feature := j_feature_best result,
                                       threshold := threshold_best result\<rparr>)
                (Some tl') (Some tr')"
      by (subst (asm) split_traverse_node.simps)
         (auto simp: Let_def split: sum.splits prod.splits option.splits)
    note l1 = create_node_leaf[OF c1] and l2 = create_node_leaf[OF c2]
    from True have nn: "\<not> \<not> did_split result" by simp
    have i1: "children_ok msl tl' \<and> n_samples (attrs tl') = length Xl"
      using "1.IH"(1)[OF sp refl nn refl refl refl sa(1) refl refl refl pb refl c1 refl c2 refl
                        refl refl r1 "1.prems"(2) _ _ "1.prems"(5)] l1 by simp
    have i2: "children_ok msl tr' \<and> n_samples (attrs tr') = length Xr"
      using "1.IH"(2)[OF sp refl nn refl refl refl sa(1) refl refl refl pb refl c1 refl c2 refl
                        refl refl r1 refl r2 "1.prems"(2) _ _ "1.prems"(5)] l2 by simp
    from i1 i2 sa(2,3) t show ?thesis by simp
  qed
qed

subsection \<open>The minimum leaf size\<close>

lemma fit_children_ok:
  assumes "fit L self X y = Inr s" and crit: "splitting_criterion self \<noteq> LossGradient"
  shows "\<exists>msl t. min_samples_leaf s = Some msl \<and> tree s = Some t \<and> children_ok msl t"
proof -
  let ?msl = "case min_samples_leaf self of
                None \<Rightarrow> nat \<lceil>real (get_cardinality L (ncols X)) * 1.25\<rceil>
              | Some m \<Rightarrow> if m = get_cardinality L (ncols X)
                          then nat \<lceil>real (get_cardinality L (ncols X)) * 1.25\<rceil> else m"
  let ?self1 = "self\<lparr>cardinality := Some (get_cardinality L (ncols X)),
                     min_samples_leaf := Some ?msl, k := k self * real ?msl\<rparr>"
  from assms(1) obtain t st where
    bt: "build_tree L ?self1 X y = Inr (t, st)" and
    s: "s = ?self1\<lparr>tree := Some t, split_dims := cur_split_dims st,
                    actual_max_depth := cur_actual_max_depth st\<rparr>"
    by (auto simp: fit_def Let_def split: sum.splits prod.splits)
  from bt obtain n st0 where
    cn: "create_node L X y 0 \<lparr>index_node_global = 0, cur_split_dims = split_dims ?self1,
            cur_actual_max_depth = actual_max_depth ?self1\<rparr> = Inr (n, st0)" and
    tr: "split_traverse_node L ?self1 n st0 = Inr (t, st)"
    by (auto simp: build_tree_def split: sum.splits prod.splits)
  have m: "min_samples_leaf ?self1 = Some ?msl" by simp
  from crit have c: "splitting_criterion ?self1 \<noteq> LossGradient" by simp
  from split_traverse_node_children[OF tr m create_node_leaf(1,2)[OF cn] c]
  have "children_ok ?msl t" by simp
  with s show ?thesis by simp
qed

text \<open>
  Under \<open>model_aware\<close> and \<open>model_agnostic\<close>, in both search modes, the bound is checked
  on the sizes of the very partition that becomes the two children (lines 196 to 202):
  when \<open>_splitter\<close> reports a split, each part has at least \<open>min_samples_leaf\<close> rows, and
  every child of the tree that \<open>fit\<close> stores holds at least that many samples.
\<close>

lemma threshold_search_min_samples_leaf:
  assumes "splitting_criterion self \<noteq> LossGradient"
  shows "(splitter L self node st = Inr (result, st') \<and> did_split result \<longrightarrow>
      (\<exists>X y msl j t Xl yl Xr yr.
          data (attrs node) = Some (X, y) \<and> min_samples_leaf self = Some msl \<and>
          j_feature_best result = Some j \<and> threshold_best result = Some t \<and>
          split_data (Some j) (Some t) X y = Inr ((Xl, yl), (Xr, yr)) \<and>
          data_best result = Some ((Xl, yl), (Xr, yr)) \<and>
          msl \<le> length Xl \<and> msl \<le> length Xr))
   \<and> (fit L self X0 y0 = Inr s \<longrightarrow>
        (\<exists>msl t. min_samples_leaf s = Some msl \<and> tree s = Some t \<and> children_ok msl t))"
  using splitter_accepts_admissible[of L self node st result st', OF _ _ assms]
    fit_children_ok[of L self X0 y0 s, OF _ assms]
  by blast

lemma ex_splitter_aware:
  "splitter ex_lib (ex_config ModelAware 1 (Some 2)) ex_root_leaf ex_state =
     Inr (ex_split_result,
          \<lparr>index_node_global = 4, cur_split_dims = Some [0], cur_actual_max_depth = 0\<rparr>)"
  by (simp add: ex_eval2)

subsection \<open>The split value of the gradient selector\<close>

lemma pow2_powr: "pow2 e = 2 powr (real_of_int e)"
  by (auto simp: pow2_def powr_realpow[symmetric] powr_minus field_simps)

text \<open>Rounding a number whose binade is known.\<close>

lemma fl64_binade:
  assumes "pow2 e \<le> \<bar>x\<bar>" and "\<bar>x\<bar> < pow2 (e + 1)" and "- 1022 \<le> e"
  shows "fl64 x = of_int (round_even (x / pow2 (e - 52))) * pow2 (e - 52)"
proof -
  have p: "0 < pow2 e" by (simp add: pow2_powr)
  with assms(1) have x: "x \<noteq> 0" "0 < \<bar>x\<bar>" by auto
  have "\<lfloor>log 2 \<bar>x\<bar>\<rfloor> = e"
    using assms(1,2) x
    by (subst floor_log_eq_powr_iff) (auto simp: pow2_powr)
  with x assms(3) show ?thesis by (simp add: fl64_def Let_def max_def)
qed

text \<open>
  The sum of the two doubles that follow 1 is \<open>2 + 3 * 2^(-52)\<close>, half way between the
  doubles \<open>2 + 2^(-51)\<close> and \<open>2 + 2^(-50)\<close>; the tie goes to the even significand, the
  larger one, and its half is the upper of the two values.
\<close>

lemma ex_midpoint: "fl64_mul (1 / 2) (fl64_add ex_lo ex_hi) = ex_hi"
proof -
  have a: "fl64 (ex_lo + ex_hi) = 9007199254740996 / 4503599627370496"
    unfolding ex_lo_def ex_hi_def
    by (subst fl64_binade[where e = 1]) (simp_all add: pow2_def round_even_def Let_def)
  have b: "fl64 (1 / 2 * (9007199254740996 / 4503599627370496)) = ex_hi"
    unfolding ex_hi_def
    by (subst fl64_binade[where e = 0]) (simp_all add: pow2_def round_even_def Let_def)
  show ?thesis unfolding fl64_mul_def fl64_add_def a b ..
qed

lemma ex_sort_along: "sort_along ex_X7 0 = [0, 1, 2, 3, 4, 5, 6]"
  by (simp add: sort_along_def ex_X7_def ex_lo_def ex_hi_def upt_rec)

lemma ex_sorted_column: "sorted_column ex_X7 0 = [0, 1 / 4, 1 / 2, ex_lo, ex_hi, 2, 3]"
  by (simp add: sorted_column_def ex_sort_along) (simp add: ex_X7_def)

lemma ex_boundaries: "boundaries ex_X7 0 = [1, 2, 3, 4, 5, 6]"
  by (simp add: boundaries_eq ex_sorted_column) (simp add: ex_X7_def ex_lo_def ex_hi_def upt_rec)

lemma ex_grad_candidates: "grad_candidates 3 ex_X7 0 = [3, 4]"
  by (simp add: grad_candidates_def ex_boundaries) (simp add: ex_X7_def)

lemma ex_split7:
  "split_data (Some 0) (Some ex_hi) ex_X7 ex_y7 =
     Inr (([[0], [1 / 4], [1 / 2], [ex_lo], [ex_hi]], [0, 0, 0, 0, 1]), ([[2], [3]], [1, 1]))"
  by (simp add: split_data_def Let_def ex_X7_def ex_y7_def upt_rec) (simp add: ex_lo_def ex_hi_def)

lemma ex_find_split:
  assumes "gain_at L p ex_X7 ex_y7 (sort_along ex_X7 0) 3 = Fin g3"
    and "gain_at L p ex_X7 ex_y7 (sort_along ex_X7 0) 4 = Fin g4"
    and "g3 < g4" and "get_poly L p [0] \<noteq> []"
  shows "find_split_from_grad L (Some [0]) (Some 3) p ex_X7 ex_y7 = Inr (True, Some 0, Some ex_hi)"
proof -
  have n: "ncols ex_X7 = 1" "ncols (map (get_poly L p) ex_X7) \<noteq> 0"
    using assms(4) by (simp_all add: ncols_def ex_X7_def)
  have am: "argmax [Fin g3, Fin g4] = 1"
    using assms(3) by (simp add: argmax_def beats_def upt_rec)
  show ?thesis
    using n assms(1,2) ex_midpoint
    by (simp add: find_split_from_grad_def grad_dim_step_def ex_grad_candidates Let_def am
          above_max_def ex_sorted_column)
qed

lemma upt7: "[0..<7] = [0, 1, 2, 3, 4, 5, 6]" "[0..<Suc 0] = [0]" "[0..<(1::nat)] = [0]"
  by (simp_all add: upt_rec)

lemma ex_P: "map (get_poly ex_lib 0) ex_X7 = [[1], [1], [1], [1], [1], [1], [1]]"
  by (simp add: ex_lib_def ex_X7_def)

lemma ex_len: "length ex_X7 = 7"
  by (simp add: ex_X7_def)

lemma ex_gains:
  "gain_at ex_lib 0 ex_X7 ex_y7 [0, 1, 2, 3, 4, 5, 6] 3 = Fin (9 / 4)"
  "gain_at ex_lib 0 ex_X7 ex_y7 [0, 1, 2, 3, 4, 5, 6] 4 = Fin 3"
  unfolding gain_at_def Let_def ex_P ex_len
  by (simp_all add: upt7 ncols_def col_sums_def renormalise_def sq_sum_over_def fl_add_def)
     (simp_all add: ex_lib_def ex_X7_def ex_y7_def)

text \<open>
  Claim C4 fails under \<open>loss_gradient\<close>. The selector keeps a boundary \<open>s\<close> when \<open>s\<close> and
  \<open>N - s\<close> sorted samples lie on its two sides, but the children are made by splitting the
  data again at the split value \<open>0.5*(Xd[s - 1] + Xd[s])\<close>, computed in double precision.
  At the seven samples, with \<open>min_samples_leaf = 3\<close>, the boundaries 3 and 4 are kept. For
  every polynomial library whose gain at boundary 4 exceeds the gain at boundary 3 (the
  response jumps there), the split value between the fourth and the fifth feature value
  rounds to the fifth, \<open>x0 <= threshold\<close> sends five samples to the left, and the right
  child of the tree that \<open>fit\<close> stores holds two samples, fewer than \<open>min_samples_leaf\<close>.
\<close>

theorem gradient_split_below_min_samples_leaf:
  assumes "gain_at L (fit_model L ex_X7 ex_y7) ex_X7 ex_y7 (sort_along ex_X7 0) 3 = Fin g3"
    and "gain_at L (fit_model L ex_X7 ex_y7) ex_X7 ex_y7 (sort_along ex_X7 0) 4 = Fin g4"
    and "g3 < g4" and "get_poly L (fit_model L ex_X7 ex_y7) [0] \<noteq> []"
    and "get_cardinality L 1 \<noteq> 3"
  shows "\<exists>s t l r. fit L (ex_config LossGradient 1 (Some 3)) ex_X7 ex_y7 = Inr s \<and>
           min_samples_leaf s = Some 3 \<and> tree s = Some t \<and>
           j_feature (attrs t) = Some 0 \<and> threshold (attrs t) = Some ex_hi \<and>
           left t = Some l \<and> right t = Some r \<and>
           data (attrs l) = Some ([[0], [1 / 4], [1 / 2], [ex_lo], [ex_hi]], [0, 0, 0, 0, 1]) \<and>
           data (attrs r) = Some ([[2], [3]], [1, 1]) \<and>
           n_samples (attrs l) = 5 \<and> n_samples (attrs r) = 2 \<and> \<not> children_ok 3 t"
proof -
  have n: "ncols ex_X7 = 1" "ex_X7 \<noteq> []" "length ex_X7 = 7"
    by (simp_all add: ncols_def ex_X7_def)
  note fs = ex_find_split[OF assms(1-4)]
  show ?thesis
    using assms(5) n
    by (simp add: fit_def build_tree_def create_node_def fit_poly_def ex_config_def
          split_traverse_node.simps splitter_def initial_best_def run_search_def
          fit_children_def fs ex_split7 Let_def)
qed

theorem gradient_split_below_min_samples_leaf_witness:
  "gain_at ex_lib (fit_model ex_lib ex_X7 ex_y7) ex_X7 ex_y7 (sort_along ex_X7 0) 3 = Fin (9 / 4)
   \<and> gain_at ex_lib (fit_model ex_lib ex_X7 ex_y7) ex_X7 ex_y7 (sort_along ex_X7 0) 4 = Fin 3
   \<and> (\<exists>s t l r. fit ex_lib (ex_config LossGradient 1 (Some 3)) ex_X7 ex_y7 = Inr s \<and>
           min_samples_leaf s = Some 3 \<and> tree s = Some t \<and>
           j_feature (attrs t) = Some 0 \<and> threshold (attrs t) = Some ex_hi \<and>
           left t = Some l \<and> right t = Some r \<and>
           data (attrs l) = Some ([[0], [1 / 4], [1 / 2], [ex_lo], [ex_hi]], [0, 0, 0, 0, 1]) \<and>
           data (attrs r) = Some ([[2], [3]], [1, 1]) \<and>
           n_samples (attrs l) = 5 \<and> n_samples (attrs r) = 2 \<and> \<not> children_ok 3 t)"
proof -
  have m: "fit_model ex_lib ex_X7 ex_y7 = 0" by (simp add: ex_lib_def ex_y7_def)
  have g: "gain_at ex_lib (fit_model ex_lib ex_X7 ex_y7) ex_X7 ex_y7 (sort_along ex_X7 0) 3
             = Fin (9 / 4)"
          "gain_at ex_lib (fit_model ex_lib ex_X7 ex_y7) ex_X7 ex_y7 (sort_along ex_X7 0) 4
             = Fin 3"
    by (simp_all only: m ex_sort_along ex_gains)
  have p: "get_poly ex_lib (fit_model ex_lib ex_X7 ex_y7) [0] \<noteq> []"
    by (simp add: ex_lib_def)
  have c: "get_cardinality ex_lib 1 \<noteq> 3" by (simp add: ex_lib_def)
  have l: "(9 / 4 :: real) < 3" by simp
  from gradient_split_below_min_samples_leaf[OF g l p c] g show ?thesis by blast
qed

subsection \<open>Search by first strict improvement\<close>

lemma below_best_trans:
  "below_best (Fin v) (Some w) \<Longrightarrow> below_best (Fin w) init \<Longrightarrow> below_best (Fin v) init"
  by (auto simp: below_best_def split: option.splits)

lemma below_best_Some [simp]: "below_best (Fin v) (Some w) = (v < w)"
  by (simp add: below_best_def)

lemma search_inv_step:
  assumes inv: "search_inv sc init cs b"
    and keep: "sc c = None \<or> (\<exists>v. sc c = Some v \<and> \<not> below_best (Fin v) (loss_best b)) \<Longrightarrow> b' = b"
    and upd: "\<And>v. sc c = Some v \<Longrightarrow> below_best (Fin v) (loss_best b) \<Longrightarrow>
                did_split b' \<and> loss_best b' = Some v \<and> j_feature_best b' = Some (fst c) \<and>
                threshold_best b' = Some (snd c)"
  shows "search_inv sc init (cs @ [c]) b'"
proof (cases "sc c")
  case None
  with keep have "b' = b" by simp
  with inv None show ?thesis
    by (auto simp: search_inv_def nth_append less_Suc_eq split: if_splits)
next
  case (Some v)
  show ?thesis
  proof (cases "below_best (Fin v) (loss_best b)")
    case False
    with keep Some have b': "b' = b" by simp
    show ?thesis
    proof (cases "did_split b")
      case True
      with inv obtain i u where i: "i < length cs" "sc (cs ! i) = Some u"
        "j_feature_best b = Some (fst (cs ! i))" "threshold_best b = Some (snd (cs ! i))"
        "loss_best b = Some u" "below_best (Fin u) init"
        "\<forall>k < i. \<forall>w. sc (cs ! k) = Some w \<longrightarrow> u < w"
        "\<forall>k < length cs. \<forall>w. sc (cs ! k) = Some w \<longrightarrow> u \<le> w"
        by (auto simp: search_inv_def)
      from False i(5) have uv: "u \<le> v" by simp
      have "\<forall>k < length (cs @ [c]). \<forall>w. sc ((cs @ [c]) ! k) = Some w \<longrightarrow> u \<le> w"
        using i(8) uv Some by (auto simp: nth_append less_Suc_eq)
      with i True show ?thesis
        unfolding search_inv_def b'
        by (auto simp: nth_append intro!: exI[where x = i])
    next
      case nd: False
      with inv have l: "loss_best b = init"
        and a: "\<forall>k < length cs. \<forall>w. sc (cs ! k) = Some w \<longrightarrow> \<not> below_best (Fin w) init"
        by (auto simp: search_inv_def)
      from False l have "\<not> below_best (Fin v) init" by simp
      with a Some have "\<forall>k < length (cs @ [c]). \<forall>w. sc ((cs @ [c]) ! k) = Some w
          \<longrightarrow> \<not> below_best (Fin w) init"
        by (auto simp: nth_append less_Suc_eq)
      with nd l show ?thesis unfolding search_inv_def b' by simp
    qed
  next
    case True
    from upd[OF Some True] have u: "did_split b'" "loss_best b' = Some v"
      "j_feature_best b' = Some (fst c)" "threshold_best b' = Some (snd c)" by auto
    have bi: "below_best (Fin v) init"
      and old: "\<forall>k < length cs. \<forall>w. sc (cs ! k) = Some w \<longrightarrow> v < w"
    proof -
      show "below_best (Fin v) init"
      proof (cases "did_split b")
        case True
        with inv obtain u where "loss_best b = Some u" "below_best (Fin u) init"
          by (auto simp: search_inv_def)
        with \<open>below_best (Fin v) (loss_best b)\<close> show ?thesis
          by (auto intro: below_best_trans)
      next
        case False
        with inv have "loss_best b = init" by (auto simp: search_inv_def)
        with \<open>below_best (Fin v) (loss_best b)\<close> show ?thesis by simp
      qed
      show "\<forall>k < length cs. \<forall>w. sc (cs ! k) = Some w \<longrightarrow> v < w"
      proof (cases "did_split b")
        case True
        with inv obtain u where "loss_best b = Some u"
          "\<forall>k < length cs. \<forall>w. sc (cs ! k) = Some w \<longrightarrow> u \<le> w"
          by (auto simp: search_inv_def)
        with \<open>below_best (Fin v) (loss_best b)\<close> show ?thesis by fastforce
      next
        case False
        with inv have l: "loss_best b = init"
          and a: "\<forall>k < length cs. \<forall>w. sc (cs ! k) = Some w \<longrightarrow> \<not> below_best (Fin w) init"
          by (auto simp: search_inv_def)
        show ?thesis
        proof (intro allI impI)
          fix k w assume k: "k < length cs" "sc (cs ! k) = Some w"
          with a have "\<not> below_best (Fin w) init" by blast
          with \<open>below_best (Fin v) (loss_best b)\<close> l show "v < w"
            by (auto simp: below_best_def split: option.splits)
        qed
      qed
    qed
    have "\<forall>k < length (cs @ [c]). \<forall>w. sc ((cs @ [c]) ! k) = Some w \<longrightarrow> v \<le> w"
      using old Some by (auto simp: nth_append less_Suc_eq)
    moreover have "\<forall>k < length cs. \<forall>w. sc ((cs @ [c]) ! k) = Some w \<longrightarrow> v < w"
      using old by (auto simp: nth_append)
    ultimately show ?thesis
      unfolding search_inv_def using u Some bi
      by (auto intro!: exI[where x = "length cs"])
  qed
qed

lemma fit_poly_Inr:
  assumes "fit_poly L X y st = Inr ((l, p), st1)"
  shows "l = mse L (fit_model L X y) X y" and "p = fit_model L X y"
    and "st1 = st\<lparr>index_node_global := index_node_global st + 1\<rparr>" and "X \<noteq> []"
  using assms by (auto simp: fit_poly_def Let_def split: if_splits)

lemma try_threshold_keep:
  assumes "try_threshold L self X y j t (b, st) = Inr (b', st')"
    and "candidate_score L self X y (j, t) = None \<or>
         (\<exists>v. candidate_score L self X y (j, t) = Some v \<and> \<not> below_best (Fin v) (loss_best b))"
  shows "b' = b"
  using assms
  by (auto simp: try_threshold_def candidate_score_def Let_def fit_poly_def
           split: sum.splits prod.splits option.splits if_splits criterion.splits fl.splits)

lemma try_threshold_update:
  assumes "try_threshold L self X y j t (b, st) = Inr (b', st')"
    and "candidate_score L self X y (j, t) = Some v" and "below_best (Fin v) (loss_best b)"
  shows "did_split b' \<and> loss_best b' = Some v \<and> j_feature_best b' = Some (fst (j, t)) \<and>
         threshold_best b' = Some (snd (j, t))"
  using assms
  by (auto simp: try_threshold_def candidate_score_def Let_def fit_poly_def
           split: sum.splits prod.splits option.splits if_splits criterion.splits fl.splits)

lemma search_thresholds_inv:
  assumes "search_thresholds L self X y j ts bs = Inr bs'"
    and "search_inv (candidate_score L self X y) init cs (fst bs)"
  shows "search_inv (candidate_score L self X y) init (cs @ map (Pair j) ts) (fst bs')"
  using assms
proof (induction ts arbitrary: bs cs)
  case Nil
  then show ?case by simp
next
  case (Cons t ts)
  from Cons.prems(1) obtain bs1 where
    s1: "try_threshold L self X y j t bs = Inr bs1" and
    s2: "search_thresholds L self X y j ts bs1 = Inr bs'"
    by (auto split: sum.splits)
  from s1 have s1': "try_threshold L self X y j t (fst bs, snd bs) = Inr (fst bs1, snd bs1)"
    by simp
  have "search_inv (candidate_score L self X y) init (cs @ [(j, t)]) (fst bs1)"
    by (rule search_inv_step[OF Cons.prems(2) try_threshold_keep[OF s1'] try_threshold_update[OF s1']])
  from Cons.IH[OF s2 this] show ?case by simp
qed

lemma search_features_inv:
  assumes "search_features L self X y js bs = Inr bs'"
    and "search_inv (candidate_score L self X y) init cs (fst bs)"
  shows "search_inv (candidate_score L self X y) init (cs @ search_candidates self X js) (fst bs')"
  using assms
proof (induction js arbitrary: bs cs)
  case Nil
  then show ?case by (simp add: search_candidates_def)
next
  case (Cons j js)
  from Cons.prems(1) obtain ts bs1 where
    tc: "threshold_candidates self X j = Inr ts" and
    s1: "search_thresholds L self X y j ts bs = Inr bs1" and
    s2: "search_features L self X y js bs1 = Inr bs'"
    by (auto split: sum.splits)
  from Cons.IH[OF s2 search_thresholds_inv[OF s1 Cons.prems(2)]] tc
  show ?case by (simp add: search_candidates_def feature_candidates_def)
qed

lemma splitter_aware_inv:
  assumes sp: "splitter L self node st = Inr (result, st')"
    and crit: "splitting_criterion self = ModelAware"
    and dat: "data (attrs node) = Some (X, y)"
    and dep: "depth (attrs node) < max_depth self"
  shows "search_inv (candidate_score L self X y) (Some (loss (attrs node)))
           (search_candidates self X [0..<ncols X]) result"
proof -
  let ?b0 = "\<lparr>did_split = False, loss_best = Some (loss (attrs node)), polys_best = None,
              data_best = None, j_feature_best = None, threshold_best = None,
              N_rows = length X\<rparr> :: 'a split_result"
  from sp crit dat dep obtain st0 st2 where
    run: "search_features L self X y [0..<ncols X] (?b0, st0) = Inr (result, st2)"
    by (auto simp: splitter_def initial_best_def run_search_def fit_children_def Let_def
             split: sum.splits prod.splits)
  have "search_inv (candidate_score L self X y) (Some (loss (attrs node))) [] ?b0"
    by (simp add: search_inv_def)
  from search_features_inv[OF run, of "Some (loss (attrs node))" "[]"] this
  show ?thesis by simp
qed

text \<open>
  Claim C5. Under \<open>model_aware\<close>, at a node whose depth is below \<open>max_depth\<close>, the
  running best starts
  at the node's own loss and is replaced only by a strictly smaller weighted child loss.
  So if the node splits, the chosen candidate is the first one, in the order of the
  search, whose weighted child loss is least among the admissible candidates, and that
  loss is strictly below the node's own loss: every earlier admissible candidate has a
  strictly larger loss, every later one a loss at least as large (a later tie does not
  replace it). If the node does not split, no admissible candidate has a weighted loss
  below the node's own.
\<close>

theorem model_aware_strict_improvement:
  assumes "splitter L self node st = Inr (result, st')"
    and "splitting_criterion self = ModelAware"
    and "data (attrs node) = Some (X, y)"
    and "depth (attrs node) < max_depth self"
  defines "cs \<equiv> search_candidates self X [0..<ncols X]"
    and "score \<equiv> candidate_score L self X y"
  shows "if did_split result
         then \<exists>i < length cs. \<exists>v.
                score (cs ! i) = Some v \<and> v < loss (attrs node) \<and>
                loss_best result = Some v \<and>
                j_feature_best result = Some (fst (cs ! i)) \<and>
                threshold_best result = Some (snd (cs ! i)) \<and>
                (\<forall>k < i. \<forall>w. score (cs ! k) = Some w \<longrightarrow> v < w) \<and>
                (\<forall>k < length cs. \<forall>w. score (cs ! k) = Some w \<longrightarrow> v \<le> w)
         else loss_best result = Some (loss (attrs node)) \<and>
              (\<forall>k < length cs. \<forall>w. score (cs ! k) = Some w \<longrightarrow> loss (attrs node) \<le> w)"
proof -
  from splitter_aware_inv[OF assms(1-4)]
  have inv: "search_inv score (Some (loss (attrs node))) cs result"
    by (simp add: cs_def score_def)
  show ?thesis
  proof (cases "did_split result")
    case True
    with inv show ?thesis
      unfolding search_inv_def by simp blast
  next
    case False
    with inv show ?thesis
      unfolding search_inv_def by (auto simp: not_less)
  qed
qed

theorem model_aware_strict_improvement_witness:
  "splitter ex_lib (ex_config ModelAware 1 (Some 2)) ex_root_leaf ex_state =
     Inr (ex_split_result,
          \<lparr>index_node_global = 4, cur_split_dims = Some [0], cur_actual_max_depth = 0\<rparr>)
   \<and> did_split ex_split_result \<and> loss (attrs ex_root_leaf) = 1 / 2
   \<and> (\<exists>i < length (search_candidates (ex_config ModelAware 1 (Some 2)) ex_X [0..<ncols ex_X]).
        \<exists>v. candidate_score ex_lib (ex_config ModelAware 1 (Some 2)) ex_X ex_y
               (search_candidates (ex_config ModelAware 1 (Some 2)) ex_X [0..<ncols ex_X] ! i) = Some v
          \<and> v < 1 / 2 \<and> loss_best ex_split_result = Some v
          \<and> j_feature_best ex_split_result
                = Some (fst (search_candidates (ex_config ModelAware 1 (Some 2)) ex_X [0..<ncols ex_X] ! i))
          \<and> threshold_best ex_split_result
                = Some (snd (search_candidates (ex_config ModelAware 1 (Some 2)) ex_X [0..<ncols ex_X] ! i)))"
proof -
  have c: "splitting_criterion (ex_config ModelAware 1 (Some 2)) = ModelAware"
    by (simp add: ex_config_def)
  have d: "data (attrs ex_root_leaf) = Some (ex_X, ex_y)"
    by (simp add: ex_root_leaf_def)
  have e: "depth (attrs ex_root_leaf) < max_depth (ex_config ModelAware 1 (Some 2))"
    by (simp add: ex_root_leaf_def ex_config_def)
  have s: "did_split ex_split_result" by (simp add: ex_split_result_def)
  have l: "loss (attrs ex_root_leaf) = 1 / 2" by (simp add: ex_root_leaf_def)
  from model_aware_strict_improvement[OF ex_splitter_aware c d e] s l
  have "\<exists>i < length (search_candidates (ex_config ModelAware 1 (Some 2)) ex_X [0..<ncols ex_X]).
        \<exists>v. candidate_score ex_lib (ex_config ModelAware 1 (Some 2)) ex_X ex_y
               (search_candidates (ex_config ModelAware 1 (Some 2)) ex_X [0..<ncols ex_X] ! i) = Some v
          \<and> v < 1 / 2 \<and> loss_best ex_split_result = Some v
          \<and> j_feature_best ex_split_result
                = Some (fst (search_candidates (ex_config ModelAware 1 (Some 2)) ex_X [0..<ncols ex_X] ! i))
          \<and> threshold_best ex_split_result
                = Some (snd (search_candidates (ex_config ModelAware 1 (Some 2)) ex_X [0..<ncols ex_X] ! i))"
    by simp blast
  with ex_splitter_aware s l show ?thesis by blast
qed


subsection \<open>The model-agnostic search\<close>

lemma try_threshold_agnostic_state:
  assumes "try_threshold L self X y j t (b, st) = Inr (b', st')"
    and "splitting_criterion self = ModelAgnostic"
  shows "st' = st"
  using assms
  by (auto simp: try_threshold_def Let_def
           split: sum.splits prod.splits option.splits if_splits fl.splits)







subsection \<open>The model-agnostic split\<close>







subsection \<open>The gradient split selector\<close>

lemma nan_free_map: "NaN \<notin> set gs \<Longrightarrow> \<exists>f. gs = map Fin f"
proof (induction gs)
  case Nil
  show ?case by simp
next
  case (Cons a gs)
  then obtain f where f: "gs = map Fin f" by auto
  from Cons.prems obtain v where "a = Fin v" by (cases a) auto
  with f have "a # gs = map Fin (v # f)" by simp
  then show ?case by (rule exI[where x = "v # f"])
qed

lemma argmax_fold:
  fixes f :: "real list"
  assumes "n \<le> length f" and "f \<noteq> []"
  defines "b \<equiv> fold (\<lambda>i best. if beats (map Fin f ! i) (map Fin f ! best) then i else best) [0..<n] 0"
  shows "b < length f \<and> b \<le> n \<and> (\<forall>j < n. f ! j \<le> f ! b) \<and> (\<forall>j < b. f ! j < f ! b)"
  using assms(1) unfolding b_def
proof (induction n)
  case 0
  with assms(2) show ?case by simp
next
  case (Suc n)
  let ?b = "fold (\<lambda>i best. if beats (map Fin f ! i) (map Fin f ! best) then i else best) [0..<n] 0"
  from Suc have ih: "?b < length f" "?b \<le> n" "\<forall>j < n. f ! j \<le> f ! ?b" "\<forall>j < ?b. f ! j < f ! ?b"
    by simp_all
  from Suc.prems have n: "n < length f" by simp
  have bt: "beats (map Fin f ! n) (map Fin f ! ?b) \<longleftrightarrow> f ! ?b < f ! n"
    using n ih(1) by (simp add: beats_def)
  show ?case
  proof (cases "f ! ?b < f ! n")
    case True
    have lt: "\<forall>j < n. f ! j < f ! n"
    proof (intro allI impI)
      fix j assume "j < n"
      with ih(3) have "f ! j \<le> f ! ?b" by simp
      with True show "f ! j < f ! n" by simp
    qed
    then have "\<forall>j < Suc n. f ! j \<le> f ! n"
      by (auto simp: less_Suc_eq intro: less_imp_le)
    with lt show ?thesis using True bt n by simp
  next
    case False
    have "\<forall>j < Suc n. f ! j \<le> f ! ?b"
      using ih(3) False by (auto simp: less_Suc_eq)
    with False bt ih show ?thesis by auto
  qed
qed

lemma argmax_props:
  assumes "gs \<noteq> []" and "NaN \<notin> set gs"
  shows "\<exists>v. argmax gs < length gs \<and> gs ! argmax gs = Fin v \<and>
           (\<forall>w. Fin w \<in> set gs \<longrightarrow> w \<le> v) \<and>
           (\<forall>j < argmax gs. \<forall>w. gs ! j = Fin w \<longrightarrow> w < v)"
proof -
  from nan_free_map[OF assms(2)] obtain f where f: "gs = map Fin f" by blast
  with assms(1) have ne: "f \<noteq> []" by auto
  from argmax_fold[OF le_refl ne] have
    a: "argmax gs < length f" "\<forall>j < length f. f ! j \<le> f ! argmax gs"
       "\<forall>j < argmax gs. f ! j < f ! argmax gs"
    by (simp_all add: argmax_def f)
  have "\<forall>w. Fin w \<in> set gs \<longrightarrow> w \<le> f ! argmax gs"
    using a(2) by (auto simp: f in_set_conv_nth)
  moreover have "\<forall>j < argmax gs. \<forall>w. gs ! j = Fin w \<longrightarrow> w < f ! argmax gs"
    using a(1,3) by (auto simp: f)
  ultimately show ?thesis using a(1) by (auto simp: f)
qed

lemma grad_inv_skip:
  assumes inv: "grad_inv L model X y msl ds0 gb"
    and skip: "length (grad_candidates msl X d) \<le> 1"
  shows "grad_inv L model X y msl (ds0 @ [d]) gb"
proof (cases "gain_max gb")
  case None
  with inv skip show ?thesis
    by (auto simp: grad_inv_def nth_append less_Suc_eq)
next
  case (Some g)
  with inv obtain k i where ki: "k < length ds0" "i < length (grad_candidates msl X (ds0 ! k))"
    "1 < length (grad_candidates msl X (ds0 ! k))"
    "dim_gains L model X y msl (ds0 ! k) ! i = Fin g"
    "best_split_dim gb = Some (ds0 ! k)"
    "best_split_val gb = Some (split_value X (ds0 ! k) (grad_candidates msl X (ds0 ! k) ! i))"
    "\<forall>j < i. \<forall>w. dim_gains L model X y msl (ds0 ! k) ! j = Fin w \<longrightarrow> w < g"
    "\<forall>k' < k. 1 < length (grad_candidates msl X (ds0 ! k')) \<longrightarrow>
        (\<forall>w. Fin w \<in> set (dim_gains L model X y msl (ds0 ! k')) \<longrightarrow> w < g)"
    "\<forall>k' < length ds0. 1 < length (grad_candidates msl X (ds0 ! k')) \<longrightarrow>
        (\<forall>w. Fin w \<in> set (dim_gains L model X y msl (ds0 ! k')) \<longrightarrow> w \<le> g)"
    unfolding grad_inv_def by auto
  have "\<exists>k < length (ds0 @ [d]). \<exists>i < length (grad_candidates msl X ((ds0 @ [d]) ! k)).
             1 < length (grad_candidates msl X ((ds0 @ [d]) ! k)) \<and>
             dim_gains L model X y msl ((ds0 @ [d]) ! k) ! i = Fin g \<and>
             best_split_dim gb = Some ((ds0 @ [d]) ! k) \<and>
             best_split_val gb = Some (split_value X ((ds0 @ [d]) ! k) (grad_candidates msl X ((ds0 @ [d]) ! k) ! i)) \<and>
             (\<forall>j < i. \<forall>w. dim_gains L model X y msl ((ds0 @ [d]) ! k) ! j = Fin w \<longrightarrow> w < g) \<and>
             (\<forall>k' < k. 1 < length (grad_candidates msl X ((ds0 @ [d]) ! k')) \<longrightarrow>
                (\<forall>w. Fin w \<in> set (dim_gains L model X y msl ((ds0 @ [d]) ! k')) \<longrightarrow> w < g)) \<and>
             (\<forall>k' < length (ds0 @ [d]). 1 < length (grad_candidates msl X ((ds0 @ [d]) ! k')) \<longrightarrow>
                (\<forall>w. Fin w \<in> set (dim_gains L model X y msl ((ds0 @ [d]) ! k')) \<longrightarrow> w \<le> g))"
    apply (rule exI[where x = k])
    apply (rule conjI)
    using ki(1) apply simp
    apply (rule exI[where x = i])
    using ki skip by (auto simp: nth_append less_Suc_eq)
  with Some show ?thesis by (simp add: grad_inv_def)
qed

lemma grad_inv_keep:
  assumes inv: "grad_inv L model X y msl ds0 gb"
    and mx: "gain_max gb = Some m"
    and le: "\<forall>w. Fin w \<in> set (dim_gains L model X y msl d) \<longrightarrow> w \<le> m"
  shows "grad_inv L model X y msl (ds0 @ [d]) gb"
proof -
  from inv mx obtain k i where ki: "k < length ds0" "i < length (grad_candidates msl X (ds0 ! k))"
    "1 < length (grad_candidates msl X (ds0 ! k))"
    "dim_gains L model X y msl (ds0 ! k) ! i = Fin m"
    "best_split_dim gb = Some (ds0 ! k)"
    "best_split_val gb = Some (split_value X (ds0 ! k) (grad_candidates msl X (ds0 ! k) ! i))"
    "\<forall>j < i. \<forall>w. dim_gains L model X y msl (ds0 ! k) ! j = Fin w \<longrightarrow> w < m"
    "\<forall>k' < k. 1 < length (grad_candidates msl X (ds0 ! k')) \<longrightarrow>
        (\<forall>w. Fin w \<in> set (dim_gains L model X y msl (ds0 ! k')) \<longrightarrow> w < m)"
    "\<forall>k' < length ds0. 1 < length (grad_candidates msl X (ds0 ! k')) \<longrightarrow>
        (\<forall>w. Fin w \<in> set (dim_gains L model X y msl (ds0 ! k')) \<longrightarrow> w \<le> m)"
    unfolding grad_inv_def by auto
  have "\<exists>k < length (ds0 @ [d]). \<exists>i < length (grad_candidates msl X ((ds0 @ [d]) ! k)).
             1 < length (grad_candidates msl X ((ds0 @ [d]) ! k)) \<and>
             dim_gains L model X y msl ((ds0 @ [d]) ! k) ! i = Fin m \<and>
             best_split_dim gb = Some ((ds0 @ [d]) ! k) \<and>
             best_split_val gb = Some (split_value X ((ds0 @ [d]) ! k) (grad_candidates msl X ((ds0 @ [d]) ! k) ! i)) \<and>
             (\<forall>j < i. \<forall>w. dim_gains L model X y msl ((ds0 @ [d]) ! k) ! j = Fin w \<longrightarrow> w < m) \<and>
             (\<forall>k' < k. 1 < length (grad_candidates msl X ((ds0 @ [d]) ! k')) \<longrightarrow>
                (\<forall>w. Fin w \<in> set (dim_gains L model X y msl ((ds0 @ [d]) ! k')) \<longrightarrow> w < m)) \<and>
             (\<forall>k' < length (ds0 @ [d]). 1 < length (grad_candidates msl X ((ds0 @ [d]) ! k')) \<longrightarrow>
                (\<forall>w. Fin w \<in> set (dim_gains L model X y msl ((ds0 @ [d]) ! k')) \<longrightarrow> w \<le> m))"
    apply (rule exI[where x = k])
    apply (rule conjI)
    using ki(1) apply simp
    apply (rule exI[where x = i])
    using ki le by (auto simp: nth_append less_Suc_eq)
  with mx show ?thesis by (simp add: grad_inv_def)
qed

lemma grad_inv_update:
  assumes inv: "grad_inv L model X y msl ds0 gb"
    and live: "1 < length (grad_candidates msl X d)"
    and i: "i < length (grad_candidates msl X d)" "dim_gains L model X y msl d ! i = Fin v"
    and first: "\<forall>j < i. \<forall>w. dim_gains L model X y msl d ! j = Fin w \<longrightarrow> w < v"
    and mx: "\<forall>w. Fin w \<in> set (dim_gains L model X y msl d) \<longrightarrow> w \<le> v"
    and above: "above_max (Fin v) (gain_max gb)"
  shows "grad_inv L model X y msl (ds0 @ [d])
           \<lparr>gain_max = Some v, best_split_dim = Some d,
            best_split_val = Some (split_value X d (grad_candidates msl X d ! i))\<rparr>"
proof -
  have earlier: "\<forall>k' < length ds0. 1 < length (grad_candidates msl X (ds0 ! k')) \<longrightarrow>
        (\<forall>w. Fin w \<in> set (dim_gains L model X y msl (ds0 ! k')) \<longrightarrow> w < v)"
  proof (cases "gain_max gb")
    case None
    with inv show ?thesis by (auto simp: grad_inv_def)
  next
    case (Some m)
    with above have "m < v" by (simp add: above_max_def)
    moreover from inv Some have
      "\<forall>k' < length ds0. 1 < length (grad_candidates msl X (ds0 ! k')) \<longrightarrow>
        (\<forall>w. Fin w \<in> set (dim_gains L model X y msl (ds0 ! k')) \<longrightarrow> w \<le> m)"
      unfolding grad_inv_def by auto
    ultimately show ?thesis by fastforce
  qed
  show ?thesis
    unfolding grad_inv_def
    apply simp
    apply (rule exI[where x = "length ds0"])
    apply simp
    apply (rule exI[where x = i])
    using live i first mx earlier by (auto simp: nth_append less_Suc_eq intro: less_imp_le)
qed

lemma grad_dim_step_inv:
  assumes inv: "grad_inv L model X y msl ds0 gb"
    and d: "d < ncols X"
    and coef: "ncols (map (get_poly L model) X) \<noteq> 0"
    and nonan: "NaN \<notin> set (dim_gains L model X y msl d)"
  shows "\<exists>gb'. grad_dim_step L msl model X y d gb = Inr gb' \<and>
           grad_inv L model X y msl (ds0 @ [d]) gb'"
proof (cases "length (grad_candidates msl X d) \<le> 1")
  case True
  with d have "grad_dim_step L msl model X y d gb = Inr gb"
    by (simp add: grad_dim_step_def Let_def)
  with grad_inv_skip[OF inv True] show ?thesis by simp
next
  case False
  let ?cs = "grad_candidates msl X d"
  let ?gs = "dim_gains L model X y msl d"
  from False have live: "1 < length ?cs" by simp
  then have ne: "?gs \<noteq> []" by (auto simp: dim_gains_def)
  from argmax_props[OF ne nonan] obtain v where
    a: "argmax ?gs < length ?gs" "?gs ! argmax ?gs = Fin v"
       "\<forall>w. Fin w \<in> set ?gs \<longrightarrow> w \<le> v"
       "\<forall>j < argmax ?gs. \<forall>w. ?gs ! j = Fin w \<longrightarrow> w < v"
    by blast
  have len: "length ?gs = length ?cs" by (simp add: dim_gains_def)
  have step: "grad_dim_step L msl model X y d gb =
      (if above_max (Fin v) (gain_max gb)
       then Inr \<lparr>gain_max = Some v, best_split_dim = Some d,
                 best_split_val = Some (split_value X d (?cs ! argmax ?gs))\<rparr>
       else Inr gb)"
    using d False coef a(2)
    by (simp add: grad_dim_step_def Let_def dim_gains_def[symmetric] split_value_def)
  show ?thesis
  proof (cases "above_max (Fin v) (gain_max gb)")
    case True
    from grad_inv_update[OF inv live _ a(2) a(4) a(3) True] a(1) len step True
    show ?thesis by simp
  next
    case nb: False
    then obtain m where m: "gain_max gb = Some m" "v \<le> m"
      by (auto simp: above_max_def split: option.splits)
    with a(3) have "\<forall>w. Fin w \<in> set ?gs \<longrightarrow> w \<le> m" by fastforce
    from grad_inv_keep[OF inv m(1) this] step nb show ?thesis by simp
  qed
qed

lemma grad_dims_inv:
  assumes "grad_inv L model X y msl ds0 gb"
    and "\<forall>d \<in> set ds. d < ncols X"
    and "ncols (map (get_poly L model) X) \<noteq> 0"
    and "\<forall>d \<in> set ds. NaN \<notin> set (dim_gains L model X y msl d)"
  shows "\<exists>gb'. grad_dims L msl model X y ds gb = Inr gb' \<and>
           grad_inv L model X y msl (ds0 @ ds) gb'"
  using assms(1,2,4)
proof (induction ds arbitrary: ds0 gb)
  case Nil
  then show ?case by simp
next
  case (Cons d ds)
  from Cons.prems have d: "d < ncols X" "NaN \<notin> set (dim_gains L model X y msl d)" by simp_all
  from grad_dim_step_inv[OF Cons.prems(1) d(1) assms(3) d(2)] obtain gb1 where
    s1: "grad_dim_step L msl model X y d gb = Inr gb1" and
    i1: "grad_inv L model X y msl (ds0 @ [d]) gb1" by blast
  from Cons.IH[OF i1] Cons.prems(2,3) obtain gb' where
    "grad_dims L msl model X y ds gb1 = Inr gb'" "grad_inv L model X y msl ((ds0 @ [d]) @ ds) gb'"
    by auto
  with s1 show ?case by simp
qed

lemma upt6: "[0..<6] = [0, 1, 2, 3, 4, 5]" "[1..<6] = [1, 2, 3, 4, 5]"
  by (simp_all add: upt_rec)

lemma ex6_sort_along: "sort_along ex_X6 0 = [0, 1, 2, 3, 4, 5]"
  by (simp add: sort_along_def ex_X6_def upt_rec)

lemma ex6_sorted_column: "sorted_column ex_X6 0 = [0, 1, 2, 3, 4, 5]"
  by (simp add: sorted_column_def ex6_sort_along) (simp add: ex_X6_def)

lemma ex6_boundaries: "boundaries ex_X6 0 = [1, 2, 3, 4, 5]"
  by (simp add: boundaries_eq ex6_sorted_column) (simp add: ex_X6_def upt6)

lemma ex6_candidates: "grad_candidates 2 ex_X6 0 = [2, 3, 4]" "grad_candidates 3 ex_X6 0 = [3]"
  by (simp_all add: grad_candidates_def ex6_boundaries) (simp_all add: ex_X6_def)

lemma ex6_P: "map (get_poly ex_lib 0) ex_X6 = [[1], [1], [1], [1], [1], [1]]"
  by (simp add: ex_lib_def ex_X6_def)

lemma ex6_len: "length ex_X6 = 6"
  by (simp add: ex_X6_def)

lemma ex6_gains:
  "dim_gains ex_lib 0 ex_X6 ex_y6 2 0 = [Fin (9 / 4), Fin 3, Fin (9 / 4)]"
  unfolding dim_gains_def ex6_candidates ex6_sort_along gain_at_def Let_def ex6_P ex6_len
  by (simp add: upt6 upt7 ncols_def col_sums_def renormalise_def sq_sum_over_def fl_add_def)
     (simp add: ex_lib_def ex_X6_def ex_y6_def)

lemma fl64_5: "fl64 5 = 5"
  by (subst fl64_binade[where e = 2]) (simp_all add: pow2_def round_even_def Let_def)

lemma fl64_5_2: "fl64 (5 / 2) = 5 / 2"
  by (subst fl64_binade[where e = 1]) (simp_all add: pow2_def round_even_def Let_def)

lemma ex6_split_value: "split_value ex_X6 0 3 = 5 / 2"
  by (simp add: split_value_def ex6_sorted_column fl64_mul_def fl64_add_def fl64_5 fl64_5_2)

lemma ex6_find_split:
  "find_split_from_grad ex_lib (Some [0]) (Some 2) 0 ex_X6 ex_y6 = Inr (True, Some 0, Some (5 / 2))"
proof -
  have n: "ncols ex_X6 = 1" "ncols (map (get_poly ex_lib 0) ex_X6) \<noteq> 0"
    by (simp_all add: ncols_def ex_X6_def ex_lib_def)
  have am: "argmax [Fin (9 / 4), Fin 3, Fin (9 / 4)] = 1"
    by (simp add: argmax_def beats_def upt_rec)
  show ?thesis
    using n ex6_gains[unfolded dim_gains_def] ex6_split_value[unfolded split_value_def]
    by (simp add: find_split_from_grad_def grad_dim_step_def ex6_candidates Let_def am
          above_max_def)
qed

text \<open>
  Claim C6, which fails for a dimension that retains exactly one candidate. At the six
  samples with \<open>min_samples_leaf = 3\<close> the boundaries of dimension 0 are 1 to 5 and the
  candidate 3 remains, with three samples on each side; the dimension is then skipped
  (\<open>len(splits) <= 1\<close>), and the selector reports no split although a dimension has
  retained a candidate.
\<close>

theorem gradient_selector_single_candidate_counterexample:
  "find_split_from_grad ex_lib (Some [0]) (Some 3) 0 ex_X6 ex_y6 = Inr (False, None, None)
   \<and> sorted_column ex_X6 0 = [0, 1, 2, 3, 4, 5]
   \<and> boundaries ex_X6 0 = [1, 2, 3, 4, 5]
   \<and> grad_candidates 3 ex_X6 0 = [3]"
proof -
  have n: "ncols ex_X6 = 1" by (simp add: ncols_def ex_X6_def)
  have "find_split_from_grad ex_lib (Some [0]) (Some 3) 0 ex_X6 ex_y6 = Inr (False, None, None)"
    using n by (simp add: find_split_from_grad_def grad_dim_step_def ex6_candidates Let_def)
  then show ?thesis by (simp add: ex6_sorted_column ex6_boundaries ex6_candidates)
qed

text \<open>
  Claim C6 as amended. In every dimension the boundaries are the positions, from 1 on,
  at which the sorted feature value differs from the one before, and the candidates are
  the boundaries with at least \<open>min_samples_leaf\<close> sorted samples on each side. For
  dimensions within the columns of \<open>X\<close>, a model with at least one coefficient and gains
  none of which is \<open>nan\<close>: the selector reports no split exactly when every allowed
  dimension has fewer than 2 remaining candidates and is therefore skipped. Otherwise it
  returns a dimension that is not skipped and the split value \<open>0.5*(Xd[s - 1] + Xd[s])\<close>,
  computed in double precision from the two sorted feature values straddling a candidate
  \<open>s\<close> of that dimension, such that the gain at \<open>s\<close> is the first of the largest gains
  of the dimension, exceeds every gain of the earlier dimensions that are not skipped
  and is at least every gain of the later ones (\<open>>\<close> is strict: the first dimension wins
  ties).
\<close>

theorem gradient_selector_choice:
  assumes dims: "\<forall>d \<in> set ds. d < ncols X"
    and coef: "ncols (map (get_poly L model) X) \<noteq> 0"
    and nonan: "\<forall>d \<in> set ds. NaN \<notin> set (dim_gains L model X y msl d)"
  shows "boundaries X d0 =
           filter (\<lambda>i. sorted_column X d0 ! (i - 1) \<noteq> sorted_column X d0 ! i) [1..<length X]
     \<and> grad_candidates msl X d0 =
           filter (\<lambda>s. msl \<le> s \<and> msl \<le> length X - s) (boundaries X d0)
     \<and> (if \<forall>d \<in> set ds. length (grad_candidates msl X d) \<le> 1
        then find_split_from_grad L (Some ds) (Some msl) model X y = Inr (False, None, None)
        else \<exists>k i g. k < length ds \<and> i < length (grad_candidates msl X (ds ! k)) \<and>
               1 < length (grad_candidates msl X (ds ! k)) \<and>
               find_split_from_grad L (Some ds) (Some msl) model X y =
                 Inr (True, Some (ds ! k),
                      Some (split_value X (ds ! k) (grad_candidates msl X (ds ! k) ! i))) \<and>
               dim_gains L model X y msl (ds ! k) ! i = Fin g \<and>
               (\<forall>j < i. \<forall>w. dim_gains L model X y msl (ds ! k) ! j = Fin w \<longrightarrow> w < g) \<and>
               (\<forall>k' < k. 1 < length (grad_candidates msl X (ds ! k')) \<longrightarrow>
                  (\<forall>w. Fin w \<in> set (dim_gains L model X y msl (ds ! k')) \<longrightarrow> w < g)) \<and>
               (\<forall>k' < length ds. 1 < length (grad_candidates msl X (ds ! k')) \<longrightarrow>
                  (\<forall>w. Fin w \<in> set (dim_gains L model X y msl (ds ! k')) \<longrightarrow> w \<le> g)))"
proof (intro conjI)
  show "boundaries X d0 =
           filter (\<lambda>i. sorted_column X d0 ! (i - 1) \<noteq> sorted_column X d0 ! i) [1..<length X]"
    by (rule boundaries_eq)
  show "grad_candidates msl X d0 =
           filter (\<lambda>s. msl \<le> s \<and> msl \<le> length X - s) (boundaries X d0)"
    by (simp add: grad_candidates_def)
  let ?init = "\<lparr>gain_max = None, best_split_dim = None, best_split_val = None\<rparr>"
  have "grad_inv L model X y msl [] ?init" by (simp add: grad_inv_def)
  from grad_dims_inv[OF this dims coef nonan] obtain gb where
    gd: "grad_dims L msl model X y ds ?init = Inr gb" and
    inv: "grad_inv L model X y msl ds gb" by auto
  show "if \<forall>d \<in> set ds. length (grad_candidates msl X d) \<le> 1
        then find_split_from_grad L (Some ds) (Some msl) model X y = Inr (False, None, None)
        else \<exists>k i g. k < length ds \<and> i < length (grad_candidates msl X (ds ! k)) \<and>
               1 < length (grad_candidates msl X (ds ! k)) \<and>
               find_split_from_grad L (Some ds) (Some msl) model X y =
                 Inr (True, Some (ds ! k),
                      Some (split_value X (ds ! k) (grad_candidates msl X (ds ! k) ! i))) \<and>
               dim_gains L model X y msl (ds ! k) ! i = Fin g \<and>
               (\<forall>j < i. \<forall>w. dim_gains L model X y msl (ds ! k) ! j = Fin w \<longrightarrow> w < g) \<and>
               (\<forall>k' < k. 1 < length (grad_candidates msl X (ds ! k')) \<longrightarrow>
                  (\<forall>w. Fin w \<in> set (dim_gains L model X y msl (ds ! k')) \<longrightarrow> w < g)) \<and>
               (\<forall>k' < length ds. 1 < length (grad_candidates msl X (ds ! k')) \<longrightarrow>
                  (\<forall>w. Fin w \<in> set (dim_gains L model X y msl (ds ! k')) \<longrightarrow> w \<le> g))"
  proof (cases "gain_max gb")
    case None
    with inv have all: "\<forall>k < length ds. length (grad_candidates msl X (ds ! k)) \<le> 1"
      by (simp add: grad_inv_def)
    then have "\<forall>d \<in> set ds. length (grad_candidates msl X d) \<le> 1"
      by (auto simp: in_set_conv_nth)
    moreover from gd None
    have "find_split_from_grad L (Some ds) (Some msl) model X y = Inr (False, None, None)"
      by (simp add: find_split_from_grad_def)
    ultimately show ?thesis by simp
  next
    case (Some g)
    with inv obtain k i where ki: "k < length ds" "i < length (grad_candidates msl X (ds ! k))"
      "1 < length (grad_candidates msl X (ds ! k))"
      "dim_gains L model X y msl (ds ! k) ! i = Fin g"
      "best_split_dim gb = Some (ds ! k)"
      "best_split_val gb = Some (split_value X (ds ! k) (grad_candidates msl X (ds ! k) ! i))"
      "\<forall>j < i. \<forall>w. dim_gains L model X y msl (ds ! k) ! j = Fin w \<longrightarrow> w < g"
      "\<forall>k' < k. 1 < length (grad_candidates msl X (ds ! k')) \<longrightarrow>
          (\<forall>w. Fin w \<in> set (dim_gains L model X y msl (ds ! k')) \<longrightarrow> w < g)"
      "\<forall>k' < length ds. 1 < length (grad_candidates msl X (ds ! k')) \<longrightarrow>
          (\<forall>w. Fin w \<in> set (dim_gains L model X y msl (ds ! k')) \<longrightarrow> w \<le> g)"
      unfolding grad_inv_def by auto
    from ki(1,3) have ex: "\<not> (\<forall>d \<in> set ds. length (grad_candidates msl X d) \<le> 1)"
      by (auto simp: in_set_conv_nth not_le intro!: bexI[where x = "ds ! k"])
    from gd Some ki(5,6)
    have fs: "find_split_from_grad L (Some ds) (Some msl) model X y =
                 Inr (True, Some (ds ! k),
                      Some (split_value X (ds ! k) (grad_candidates msl X (ds ! k) ! i)))"
      by (simp add: find_split_from_grad_def)
    have E: "\<exists>k i g. k < length ds \<and> i < length (grad_candidates msl X (ds ! k)) \<and>
               1 < length (grad_candidates msl X (ds ! k)) \<and>
               find_split_from_grad L (Some ds) (Some msl) model X y =
                 Inr (True, Some (ds ! k),
                      Some (split_value X (ds ! k) (grad_candidates msl X (ds ! k) ! i))) \<and>
               dim_gains L model X y msl (ds ! k) ! i = Fin g \<and>
               (\<forall>j < i. \<forall>w. dim_gains L model X y msl (ds ! k) ! j = Fin w \<longrightarrow> w < g) \<and>
               (\<forall>k' < k. 1 < length (grad_candidates msl X (ds ! k')) \<longrightarrow>
                  (\<forall>w. Fin w \<in> set (dim_gains L model X y msl (ds ! k')) \<longrightarrow> w < g)) \<and>
               (\<forall>k' < length ds. 1 < length (grad_candidates msl X (ds ! k')) \<longrightarrow>
                  (\<forall>w. Fin w \<in> set (dim_gains L model X y msl (ds ! k')) \<longrightarrow> w \<le> g))"
      apply (rule exI[where x = k], rule exI[where x = i], rule exI[where x = g])
      using ki(1-4,7-9) fs by simp
    show ?thesis by (simp only: ex if_False) (rule E)
  qed
qed

theorem gradient_selector_choice_witness:
  "dim_gains ex_lib 0 ex_X6 ex_y6 2 0 = [Fin (9 / 4), Fin 3, Fin (9 / 4)]
   \<and> boundaries ex_X6 0 = [1, 2, 3, 4, 5]
   \<and> grad_candidates 2 ex_X6 0 = [2, 3, 4]
   \<and> find_split_from_grad ex_lib (Some [0]) (Some 2) 0 ex_X6 ex_y6
       = Inr (True, Some 0, Some (5 / 2))
   \<and> (\<exists>k i g. k < length [0::nat] \<and> i < length (grad_candidates 2 ex_X6 ([0] ! k)) \<and>
         1 < length (grad_candidates 2 ex_X6 ([0] ! k)) \<and>
         find_split_from_grad ex_lib (Some [0]) (Some 2) 0 ex_X6 ex_y6 =
           Inr (True, Some ([0] ! k),
                Some (split_value ex_X6 ([0] ! k) (grad_candidates 2 ex_X6 ([0] ! k) ! i))) \<and>
         dim_gains ex_lib 0 ex_X6 ex_y6 2 ([0] ! k) ! i = Fin g)"
proof -
  have h1: "\<forall>d \<in> set [0::nat]. d < ncols ex_X6" by (simp add: ncols_def ex_X6_def)
  have h2: "ncols (map (get_poly ex_lib 0) ex_X6) \<noteq> 0"
    by (simp add: ncols_def ex_X6_def ex_lib_def)
  have h3: "\<forall>d \<in> set [0::nat]. NaN \<notin> set (dim_gains ex_lib 0 ex_X6 ex_y6 2 d)"
    by (simp add: ex6_gains)
  have live: "\<not> (\<forall>d \<in> set [0::nat]. length (grad_candidates 2 ex_X6 d) \<le> 1)"
    by (simp add: ex6_candidates)
  from gradient_selector_choice[OF h1 h2 h3, of 0, THEN conjunct2, THEN conjunct2,
      unfolded if_not_P[OF live]]
  have "\<exists>k i g. k < length [0::nat] \<and> i < length (grad_candidates 2 ex_X6 ([0] ! k)) \<and>
         1 < length (grad_candidates 2 ex_X6 ([0] ! k)) \<and>
         find_split_from_grad ex_lib (Some [0]) (Some 2) 0 ex_X6 ex_y6 =
           Inr (True, Some ([0] ! k),
                Some (split_value ex_X6 ([0] ! k) (grad_candidates 2 ex_X6 ([0] ! k) ! i))) \<and>
         dim_gains ex_lib 0 ex_X6 ex_y6 2 ([0] ! k) ! i = Fin g"
    by blast
  with ex6_gains ex6_boundaries ex6_candidates(1) ex6_find_split show ?thesis by blast
qed

end
